theory Spec2Isabelle
  imports Complex_Main "HOL-Library.Product_Lexorder" "HOL-Library.Multiset"
begin

section \<open>Salary Management System: the browser script and the salary ledger\<close>

text \<open>
  The repository's source is \<^verbatim>\<open>static/js/script.js\<close>, the client-side script of a Flask
  application. This theory embeds the functions of the script that compute with salary
  amounts (\<^verbatim>\<open>openWithdrawalModal\<close>, \<^verbatim>\<open>validateWithdrawal\<close>, \<^verbatim>\<open>formatCurrency\<close>) together with the
  parts of the JavaScript language they call, and a model of the server-side ledger, which
  is not part of the sources, taken from the specification.
\<close>

subsection \<open>JavaScript Numbers\<close>

text \<open>
  A Number is NaN, an infinity, negative zero or a finite value; \<open>Fin 0\<close> is positive zero.
  A finite value is given by the rational it denotes. The Numbers of the language are the
  IEEE 754 binary64 values: every arithmetic result and every parsed literal is rounded to
  the nearest of them (\<open>binary64\<close> below), so that the finite values which the script
  computes with are binary64 values.
\<close>

datatype jsnum = NaN | NInf | NegZero | Fin rat | PInf

text \<open>
  Rounding to binary64, round-to-nearest with ties to even. A positive rational \<open>a\<close> with
  \<open>2^p \<le> a < 2^(p+1)\<close> is rounded to a multiple of \<open>2^(p-52)\<close>, a significand of 53 bits, and
  to a multiple of \<open>2^-1074\<close> when it is below the normal range; an even multiple is taken when
  two are equally near. A result of magnitude \<open>2^1024\<close> or more is an infinity, and a nonzero
  rational that rounds to zero gives the zero of its sign.
\<close>

fun ilog2 :: "nat \<Rightarrow> nat" where
  "ilog2 n = (if n < 2 then 0 else Suc (ilog2 (n div 2)))"

declare ilog2.simps [simp del]

text \<open>The integer \<open>p\<close> with \<open>2^p \<le> a < 2^(p+1)\<close>, for a positive \<open>a\<close>.\<close>

definition floor_log2 :: "rat \<Rightarrow> int" where
  "floor_log2 a =
     (if 1 \<le> a then int (ilog2 (nat \<lfloor>a\<rfloor>)) else - int (Suc (ilog2 (nat \<lceil>1 / a\<rceil> - 1))))"

definition round_half_even :: "rat \<Rightarrow> int" where
  "round_half_even z =
     (let f = \<lfloor>z\<rfloor>; d = z - of_int f
      in if d < 1 / 2 then f else if 1 / 2 < d then f + 1 else if even f then f else f + 1)"

definition binary64_exponent :: "rat \<Rightarrow> int" where
  "binary64_exponent a = max (- 1074) (floor_log2 a - 52)"

definition nearest_binary64 :: "rat \<Rightarrow> rat" where
  "nearest_binary64 a =
     (let e = binary64_exponent a in of_int (round_half_even (a / 2 powi e)) * 2 powi e)"

definition binary64 :: "rat \<Rightarrow> jsnum" where
  "binary64 r =
     (if r = 0 then Fin 0
      else let v = nearest_binary64 \<bar>r\<bar> in
        if 2 ^ 1024 \<le> v then (if r < 0 then NInf else PInf)
        else if v = 0 then (if r < 0 then NegZero else Fin 0)
        else Fin (if r < 0 then - v else v))"

text \<open>The magnitudes that rounding produces: a significand of at most 53 bits times a power
  of two that is at least \<open>2^-1074\<close>. The finite Numbers are those below \<open>2^1024\<close>.\<close>

definition representable :: "rat \<Rightarrow> bool" where
  "representable v \<longleftrightarrow> (\<exists>m e. v = of_int m * 2 powi e \<and> 0 \<le> m \<and> m \<le> 2 ^ 53 \<and> - 1074 \<le> e)"

fun mv :: "jsnum \<Rightarrow> rat" where
  "mv (Fin q) = q"
| "mv _ = 0"

text \<open>\<^verbatim>\<open>Number::lessThan(x, y)\<close> of ECMAScript; \<open>None\<close> is its result \<^verbatim>\<open>undefined\<close>.\<close>

fun Number_lessThan :: "jsnum \<Rightarrow> jsnum \<Rightarrow> bool option" where
  "Number_lessThan NaN y = None"
| "Number_lessThan x NaN = None"
| "Number_lessThan PInf y = Some False"
| "Number_lessThan x PInf = Some True"
| "Number_lessThan x NInf = Some False"
| "Number_lessThan NInf y = Some True"
| "Number_lessThan x y = Some (mv x < mv y)"

text \<open>
  The relational operators: \<^verbatim>\<open>a > b\<close> is true when \<^verbatim>\<open>b < a\<close> is true, and \<^verbatim>\<open>a <= b\<close> is true
  when \<^verbatim>\<open>b < a\<close> is false; both are false when the comparison is undefined.
\<close>

definition js_gt :: "jsnum \<Rightarrow> jsnum \<Rightarrow> bool" where
  "js_gt a b = (Number_lessThan b a = Some True)"

definition js_le :: "jsnum \<Rightarrow> jsnum \<Rightarrow> bool" where
  "js_le a b = (Number_lessThan b a = Some False)"

definition js_lt :: "jsnum \<Rightarrow> jsnum \<Rightarrow> bool" where
  "js_lt a b = (Number_lessThan a b = Some True)"

definition js_ge :: "jsnum \<Rightarrow> jsnum \<Rightarrow> bool" where
  "js_ge a b = (Number_lessThan a b = Some False)"

text \<open>\<^verbatim>\<open>Number::unaryMinus\<close>, \<^verbatim>\<open>Number::add\<close> and \<^verbatim>\<open>Number::subtract\<close>. The sum of two finite
  Numbers is their exact sum rounded to binary64; an exact sum of zero is positive zero.\<close>

fun js_neg :: "jsnum \<Rightarrow> jsnum" where
  "js_neg NaN = NaN"
| "js_neg NInf = PInf"
| "js_neg PInf = NInf"
| "js_neg NegZero = Fin 0"
| "js_neg (Fin q) = (if q = 0 then NegZero else Fin (- q))"

fun js_add :: "jsnum \<Rightarrow> jsnum \<Rightarrow> jsnum" where
  "js_add NaN y = NaN"
| "js_add x NaN = NaN"
| "js_add PInf NInf = NaN"
| "js_add NInf PInf = NaN"
| "js_add PInf y = PInf"
| "js_add x PInf = PInf"
| "js_add NInf y = NInf"
| "js_add x NInf = NInf"
| "js_add NegZero NegZero = NegZero"
| "js_add x y = binary64 (mv x + mv y)"

definition js_sub :: "jsnum \<Rightarrow> jsnum \<Rightarrow> jsnum" where
  "js_sub x y = js_add x (js_neg y)"

subsection \<open>Strings, digits and white space\<close>

text \<open>
  A JavaScript string is modelled by its UTF-8 bytes, so that a character outside ASCII
  (the infinity sign, a no-break space) is a byte sequence.
\<close>

fun is_prefix :: "string \<Rightarrow> string \<Rightarrow> bool" where
  "is_prefix [] s = True"
| "is_prefix (p # ps) [] = False"
| "is_prefix (p # ps) (c # cs) = (p = c \<and> is_prefix ps cs)"

definition is_digit :: "char \<Rightarrow> bool" where
  "is_digit c = (48 \<le> (of_char c :: nat) \<and> (of_char c :: nat) \<le> 57)"

definition digit_val :: "char \<Rightarrow> nat" where
  "digit_val c = of_char c - 48"

definition digit_char :: "nat \<Rightarrow> char" where
  "digit_char d = char_of (48 + d)"

definition digits_val :: "string \<Rightarrow> nat" where
  "digits_val ds = foldl (\<lambda>a c. 10 * a + digit_val c) 0 ds"

fun dec_digits :: "nat \<Rightarrow> string" where
  "dec_digits n = (if n < 10 then [digit_char n] else dec_digits (n div 10) @ [digit_char (n mod 10)])"

declare dec_digits.simps [simp del]

text \<open>
  The code points of \<^verbatim>\<open>WhiteSpace\<close> and \<^verbatim>\<open>LineTerminator\<close> (ECMAScript's \<^verbatim>\<open>StrWhiteSpaceChar\<close>), in
  UTF-8: TAB, LF, VT, FF, CR, SP, U+00A0, U+1680, U+2000 to U+200A, U+2028, U+2029, U+202F,
  U+205F, U+3000 and U+FEFF.
\<close>

definition StrWhiteSpaceChar :: "string list" where
  "StrWhiteSpaceChar =
    [[CHR 0x09], [CHR 0x0A], [CHR 0x0B], [CHR 0x0C], [CHR 0x0D], [CHR 0x20],
     [CHR 0xC2, CHR 0xA0], [CHR 0xE1, CHR 0x9A, CHR 0x80],
     [CHR 0xE2, CHR 0x80, CHR 0x80], [CHR 0xE2, CHR 0x80, CHR 0x81], [CHR 0xE2, CHR 0x80, CHR 0x82],
     [CHR 0xE2, CHR 0x80, CHR 0x83], [CHR 0xE2, CHR 0x80, CHR 0x84], [CHR 0xE2, CHR 0x80, CHR 0x85],
     [CHR 0xE2, CHR 0x80, CHR 0x86], [CHR 0xE2, CHR 0x80, CHR 0x87], [CHR 0xE2, CHR 0x80, CHR 0x88],
     [CHR 0xE2, CHR 0x80, CHR 0x89], [CHR 0xE2, CHR 0x80, CHR 0x8A],
     [CHR 0xE2, CHR 0x80, CHR 0xA8], [CHR 0xE2, CHR 0x80, CHR 0xA9], [CHR 0xE2, CHR 0x80, CHR 0xAF],
     [CHR 0xE2, CHR 0x81, CHR 0x9F], [CHR 0xE3, CHR 0x80, CHR 0x80], [CHR 0xEF, CHR 0xBB, CHR 0xBF]]"

text \<open>Dropping, from the start of a string, every leading occurrence of one of the given
  (non-empty) byte sequences.\<close>

function trim_prefixes :: "string list \<Rightarrow> string \<Rightarrow> string" where
  "trim_prefixes ws s =
     (case find (\<lambda>w. w \<noteq> [] \<and> is_prefix w s) ws of
        None \<Rightarrow> s
      | Some w \<Rightarrow> trim_prefixes ws (drop (length w) s))"
  by pat_completeness auto

lemma is_prefix_length: "is_prefix w s \<Longrightarrow> length w \<le> length s"
  by (induction w s rule: is_prefix.induct) auto

termination trim_prefixes
proof (relation "measure (\<lambda>(ws, s). length s)")
  show "wf (measure (\<lambda>(ws, s). length s))" by simp
next
  fix ws :: "string list" and s w :: string
  assume "find (\<lambda>w. w \<noteq> [] \<and> is_prefix w s) ws = Some w"
  then have "w \<noteq> []" and "is_prefix w s"
    by (auto simp: find_Some_iff)
  then have "length w \<le> length s" and "length w \<noteq> 0"
    by (auto dest: is_prefix_length)
  then have "length s - length w < length s"
    by linarith
  then show "((ws, drop (length w) s), (ws, s)) \<in> measure (\<lambda>(ws, s). length s)"
    by simp
qed

declare trim_prefixes.simps [simp del]

text \<open>\<^verbatim>\<open>TrimString(s, start)\<close> and \<^verbatim>\<open>TrimString(s, start+end)\<close>.\<close>

definition TrimStart :: "string \<Rightarrow> string" where
  "TrimStart s = trim_prefixes StrWhiteSpaceChar s"

definition TrimString :: "string \<Rightarrow> string" where
  "TrimString s = rev (trim_prefixes (map rev StrWhiteSpaceChar) (rev (TrimStart s)))"

subsection \<open>\<^verbatim>\<open>parseFloat\<close> and the conversion of a string to a Number\<close>

text \<open>
  The mathematical value of a decimal literal is \<open>m * 10^e\<close>, for the number \<open>m\<close> its digits
  write and a decimal exponent \<open>e\<close>; \<^verbatim>\<open>Infinity\<close> is a literal of its own.
\<close>

datatype literal_value = MVInfinity | MVDecimal nat int

fun parse_sign :: "string \<Rightarrow> bool \<times> string" where
  "parse_sign [] = (False, [])"
| "parse_sign (c # cs) =
     (if c = CHR ''-'' then (True, cs) else if c = CHR ''+'' then (False, cs) else (False, c # cs))"

text \<open>
  \<^verbatim>\<open>ExponentPart\<close>: an \<^verbatim>\<open>e\<close> or \<^verbatim>\<open>E\<close>, an optional sign and at least one digit. The result is the
  exponent and the text after it; a string that starts with no complete exponent part has
  the exponent 0 and is left as it is.
\<close>

definition ExponentPart :: "string \<Rightarrow> int \<times> string" where
  "ExponentPart r =
     (case r of
        [] \<Rightarrow> (0, r)
      | c # r1 \<Rightarrow>
          if c = CHR ''e'' \<or> c = CHR ''E'' then
            (let (neg, r2) = parse_sign r1; ds = takeWhile is_digit r2 in
             if ds = [] then (0, r)
             else (if neg then - int (digits_val ds) else int (digits_val ds), dropWhile is_digit r2))
          else (0, r))"

text \<open>
  The longest prefix of a string that is a \<^verbatim>\<open>StrUnsignedDecimalLiteral\<close>
  (\<^verbatim>\<open>Infinity\<close>, \<^verbatim>\<open>digits . digits? exponent?\<close>, \<^verbatim>\<open>. digits exponent?\<close> or \<^verbatim>\<open>digits exponent?\<close>):
  its value and the text after it, or \<open>None\<close> when no prefix is such a literal.
\<close>

definition StrUnsignedDecimalLiteral :: "string \<Rightarrow> (literal_value \<times> string) option" where
  "StrUnsignedDecimalLiteral u =
     (if is_prefix ''Infinity'' u then Some (MVInfinity, drop 8 u)
      else
        let ip = takeWhile is_digit u; r1 = dropWhile is_digit u;
            (fp, r2) = (case r1 of
                          [] \<Rightarrow> ([], r1)
                        | c # r \<Rightarrow> if c = CHR ''.'' then (takeWhile is_digit r, dropWhile is_digit r)
                                   else ([], r1))
        in if ip = [] \<and> fp = [] then None
           else let (e, r3) = ExponentPart r2
                in Some (MVDecimal (digits_val (ip @ fp)) (e - int (length fp)), r3))"

text \<open>The Number of a signed literal: its mathematical value rounded to binary64. A zero
  keeps the sign as negative zero.\<close>

fun to_number :: "bool \<Rightarrow> literal_value \<Rightarrow> jsnum" where
  "to_number neg MVInfinity = (if neg then NInf else PInf)"
| "to_number neg (MVDecimal m e) =
     (if m = 0 then (if neg then NegZero else Fin 0)
      else binary64 ((if neg then - 1 else 1) * of_nat m * 10 powi e))"

text \<open>\<^verbatim>\<open>parseFloat(string)\<close>: leading white space is dropped, the longest prefix that is a
  \<^verbatim>\<open>StrDecimalLiteral\<close> is read, and whatever follows is ignored.\<close>

definition parseFloat :: "string \<Rightarrow> jsnum" where
  "parseFloat s =
     (let (neg, u) = parse_sign (TrimStart s) in
      case StrUnsignedDecimalLiteral u of
        None \<Rightarrow> NaN
      | Some (v, rest) \<Rightarrow> to_number neg v)"

text \<open>\<^verbatim>\<open>NonDecimalIntegerLiteral\<close>: \<^verbatim>\<open>0x\<close>, \<^verbatim>\<open>0o\<close> or \<^verbatim>\<open>0b\<close> (in either case) and digits of that base.\<close>

definition base_digit :: "char \<Rightarrow> nat option" where
  "base_digit c =
     (let n = (of_char c :: nat) in
      if 48 \<le> n \<and> n \<le> 57 then Some (n - 48)
      else if 97 \<le> n \<and> n \<le> 102 then Some (n - 87)
      else if 65 \<le> n \<and> n \<le> 70 then Some (n - 55)
      else None)"

definition is_base_digit :: "nat \<Rightarrow> char \<Rightarrow> bool" where
  "is_base_digit b c = (case base_digit c of None \<Rightarrow> False | Some d \<Rightarrow> d < b)"

definition base_val :: "nat \<Rightarrow> string \<Rightarrow> nat" where
  "base_val b ds = foldl (\<lambda>a c. b * a + (case base_digit c of None \<Rightarrow> 0 | Some d \<Rightarrow> d)) 0 ds"

definition NonDecimalIntegerLiteral :: "string \<Rightarrow> nat option" where
  "NonDecimalIntegerLiteral t =
     (case t of
        z # p # ds \<Rightarrow>
          if z = CHR ''0'' \<and> ds \<noteq> [] then
            (if (p = CHR ''x'' \<or> p = CHR ''X'') \<and> list_all (is_base_digit 16) ds then Some (base_val 16 ds)
             else if (p = CHR ''o'' \<or> p = CHR ''O'') \<and> list_all (is_base_digit 8) ds then Some (base_val 8 ds)
             else if (p = CHR ''b'' \<or> p = CHR ''B'') \<and> list_all (is_base_digit 2) ds then Some (base_val 2 ds)
             else None)
          else None
      | _ \<Rightarrow> None)"

text \<open>
  \<^verbatim>\<open>StringToNumber\<close>, the conversion that \<^verbatim>\<open>isNaN\<close> applies to a string argument: white space is
  trimmed at both ends, the empty string is 0, and the rest must be, as a whole, a
  \<^verbatim>\<open>StrDecimalLiteral\<close> or a \<^verbatim>\<open>NonDecimalIntegerLiteral\<close>.
\<close>

definition StringToNumber :: "string \<Rightarrow> jsnum" where
  "StringToNumber s =
     (let t = TrimString s in
      if t = [] then Fin 0
      else case NonDecimalIntegerLiteral t of
        Some n \<Rightarrow> binary64 (of_nat n)
      | None \<Rightarrow>
          (let (neg, u) = parse_sign t in
           case StrUnsignedDecimalLiteral u of
             None \<Rightarrow> NaN
           | Some (v, rest) \<Rightarrow> if rest = [] then to_number neg v else NaN))"

definition isNaN_string :: "string \<Rightarrow> bool" where
  "isNaN_string s = (StringToNumber s = NaN)"

subsection \<open>\<^verbatim>\<open>Number.prototype.toLocaleString\<close> for the locale \<^verbatim>\<open>en-IN\<close>\<close>

text \<open>
  The decimal style of \<^verbatim>\<open>Intl.NumberFormat\<close> for \<^verbatim>\<open>en-IN\<close> with at least 0 and at most \<open>k\<close>
  fraction digits: the magnitude is rounded to \<open>k\<close> fraction digits, halves away from zero;
  the integer digits are grouped by the pattern \<^verbatim>\<open>#,##,##0.###\<close> (the last three digits,
  then pairs); trailing zeros of the fraction are dropped; a negative Number, negative
  zero included, has a minus sign. NaN is \<^verbatim>\<open>NaN\<close> and infinity the sign U+221E.

  The rounding is that of ECMA-402: it is applied to the value that the Number denotes. An
  implementation that rounds the shortest decimal which reads back as the Number writes
  another text only where that decimal lies exactly between two results. For three fraction
  digits this is so for a Number such as that of 1.0005; for no fraction digits and a Number
  below \<open>2^52\<close> it is never so, since a half between two whole numbers is a Number itself.
\<close>

fun group_pairs :: "string \<Rightarrow> string" where
  "group_pairs (a # b # c # rest) = a # b # CHR '','' # group_pairs (c # rest)"
| "group_pairs ds = ds"

fun group_first :: "string \<Rightarrow> string" where
  "group_first (a # b # c # d # rest) = a # b # c # CHR '','' # group_pairs (d # rest)"
| "group_first ds = ds"

text \<open>Both work on the digits from the least significant one.\<close>

definition en_IN_grouping :: "string \<Rightarrow> string" where
  "en_IN_grouping ds = rev (group_first (rev ds))"

definition fraction_part :: "nat \<Rightarrow> nat \<Rightarrow> string" where
  "fraction_part k f =
     (let ds = dec_digits f;
          padded = replicate (k - length ds) (CHR ''0'') @ ds;
          kept = rev (dropWhile (\<lambda>c. c = CHR ''0'') (rev padded))
      in if kept = [] then [] else CHR ''.'' # kept)"

text \<open>The text of a sign and of a magnitude given in units of \<open>10^-k\<close>.\<close>

definition format_scaled :: "bool \<Rightarrow> nat \<Rightarrow> nat \<Rightarrow> string" where
  "format_scaled neg k n =
     (if neg then ''-'' else []) @ en_IN_grouping (dec_digits (n div 10 ^ k)) @ fraction_part k (n mod 10 ^ k)"

definition infinity_sign :: string where
  "infinity_sign = [CHR 0xE2, CHR 0x88, CHR 0x9E]"

definition round_half_expand :: "nat \<Rightarrow> rat \<Rightarrow> nat" where
  "round_half_expand k a = nat \<lfloor>a * 10 ^ k + 1 / 2\<rfloor>"

fun toLocaleString_en_IN :: "nat \<Rightarrow> jsnum \<Rightarrow> string" where
  "toLocaleString_en_IN k NaN = ''NaN''"
| "toLocaleString_en_IN k PInf = infinity_sign"
| "toLocaleString_en_IN k NInf = ''-'' @ infinity_sign"
| "toLocaleString_en_IN k NegZero = format_scaled True k 0"
| "toLocaleString_en_IN k (Fin q) = format_scaled (q < 0) k (round_half_expand k \<bar>q\<bar>)"

subsection \<open>The page and the functions of \<^verbatim>\<open>script.js\<close>\<close>

text \<open>
  The state of the page that the withdrawal dialog reads and writes: the markup of the
  element \<^verbatim>\<open>salaryInfo\<close>, the value of the hidden field \<^verbatim>\<open>withdrawal_employee_id\<close>, the
  attribute \<^verbatim>\<open>max\<close> and the value of the input \<^verbatim>\<open>withdrawal_amount\<close>, and whether the element
  \<^verbatim>\<open>withdrawalModal\<close> has the class \<^verbatim>\<open>active\<close>.

  The attribute \<^verbatim>\<open>max\<close> is kept as the Number that \<^verbatim>\<open>parseFloat\<close> reads from it. The script
  assigns a Number to it, which the page stores as the string of that Number; \<^verbatim>\<open>parseFloat\<close>
  of the string of a Number is that Number again, but for negative zero, whose string is
  \<^verbatim>\<open>0\<close> (\<open>reflect_number\<close>).
\<close>

record page =
  salaryInfo_innerHTML :: string
  withdrawal_employee_id_value :: string
  withdrawal_amount_max :: jsnum
  withdrawal_amount_value :: string
  withdrawalModal_active :: bool

definition reflect_number :: "jsnum \<Rightarrow> jsnum" where
  "reflect_number x = (if x = NegZero then Fin 0 else x)"

text \<open>A page on which the dialog has not been opened: the input has no maximum.\<close>

definition initial_page :: page where
  "initial_page = \<lparr>salaryInfo_innerHTML = [], withdrawal_employee_id_value = [],
     withdrawal_amount_max = NaN, withdrawal_amount_value = [], withdrawalModal_active = False\<rparr>"

text \<open>The template literal assigned to \<^verbatim>\<open>salaryInfo.innerHTML\<close>, with its four interpolations.\<close>

definition salaryInfo_html :: "string \<Rightarrow> string \<Rightarrow> string \<Rightarrow> string \<Rightarrow> string" where
  \<open>salaryInfo_html employeeName shownSalary shownWithdrawn shownRemaining = concat
    [''\<newline>'',
     ''        <h4 class="font-semibold text-gray-800 mb-3">Salary Details for '',
     employeeName,
     ''</h4>\<newline>'',
     ''        <div class="space-y-2 text-sm">\<newline>'',
     ''            <div class="flex justify-between">\<newline>'',
     ''                <span class="text-gray-600">Total Salary:</span>\<newline>'',
     ''                <span class="font-semibold text-green-600">Rs '',
     shownSalary,
     ''</span>\<newline>'',
     ''            </div>\<newline>'',
     ''            <div class="flex justify-between">\<newline>'',
     ''                <span class="text-gray-600">Already Withdrawn:</span>\<newline>'',
     ''                <span class="font-semibold text-orange-600">Rs '',
     shownWithdrawn,
     ''</span>\<newline>'',
     ''            </div>\<newline>'',
     ''            <div class="flex justify-between pt-2 border-t border-orange-200">\<newline>'',
     ''                <span class="text-gray-700 font-medium">Remaining Balance:</span>\<newline>'',
     ''                <span class="font-bold text-blue-600">Rs '',
     shownRemaining,
     ''</span>\<newline>'',
     ''            </div>\<newline>'',
     ''        </div>\<newline>'',
     ''    '']\<close>

text \<open>\<^verbatim>\<open>formatNumber\<close>, the local function of \<^verbatim>\<open>openWithdrawalModal\<close>:
  \<^verbatim>\<open>num.toLocaleString('en-IN', { maximumFractionDigits: 0 })\<close>.\<close>

definition formatNumber :: "jsnum \<Rightarrow> string" where
  "formatNumber num = toLocaleString_en_IN 0 num"

text \<open>The number of fraction digits of a formatted amount: the characters after its
  decimal point, none when it has no decimal point.\<close>

definition fraction_digits :: "string \<Rightarrow> nat" where
  "fraction_digits s =
     (if CHR ''.'' \<in> set s then length (takeWhile (\<lambda>c. c \<noteq> CHR ''.'') (rev s)) else 0)"

text \<open>
  \<^verbatim>\<open>openWithdrawalModal(employeeId, employeeName, totalSalary, withdrawn)\<close>. The employee id is
  given by its string, as the hidden field stores it. The focus that the function sets
  100 ms later is not part of the state.
\<close>

definition openWithdrawalModal :: "string \<Rightarrow> string \<Rightarrow> jsnum \<Rightarrow> jsnum \<Rightarrow> page \<Rightarrow> page" where
  "openWithdrawalModal employeeId employeeName totalSalary withdrawn p =
     (let remaining = js_sub totalSalary withdrawn in
      p\<lparr>salaryInfo_innerHTML :=
           salaryInfo_html employeeName (formatNumber totalSalary) (formatNumber withdrawn)
             (formatNumber remaining),
        withdrawal_employee_id_value := employeeId,
        withdrawal_amount_max := reflect_number remaining,
        withdrawal_amount_value := [],
        withdrawalModal_active := True\<rparr>)"

text \<open>
  \<^verbatim>\<open>validateWithdrawal()\<close>: the result and the alerts shown. \<^verbatim>\<open>maxAmount.toLocaleString()\<close> formats
  in the browser's own locale, which is the parameter \<open>L\<close>.
\<close>

definition validateWithdrawal :: "(jsnum \<Rightarrow> string) \<Rightarrow> page \<Rightarrow> bool \<times> string list" where
  "validateWithdrawal L p =
     (let amount = parseFloat (withdrawal_amount_value p);
          maxAmount = withdrawal_amount_max p
      in if js_gt amount maxAmount then
           (False, [''Withdrawal amount cannot exceed remaining balance (Rs '' @ L maxAmount @ '')''])
         else if js_le amount (Fin 0) then
           (False, [''Please enter a valid withdrawal amount''])
         else (True, []))"

text \<open>\<^verbatim>\<open>formatCurrency(input)\<close>, as the function from the value of the input element before the
  call to its value after the call; the element is taken to be a text input, which keeps
  the string assigned to it.\<close>

definition formatCurrency :: "string \<Rightarrow> string" where
  "formatCurrency input_value =
     (let v = filter (\<lambda>c. c \<noteq> CHR '','') input_value in
      if \<not> isNaN_string v \<and> v \<noteq> [] then toLocaleString_en_IN 3 (parseFloat v)
      else input_value)"

subsection \<open>The ledger of the server\<close>

text \<open>
  The server of the application (\<^verbatim>\<open>app.py\<close> and its templates) is not among the sources. The
  specification describes it as a Ledger Service over a store of employees and withdrawal
  transactions; the definitions of this section follow the specification's data model and
  operations. Amounts are exact decimals there, modelled as rationals; a calendar date is a
  year, a month and a day, ordered lexicographically.
\<close>

type_synonym date = "nat \<times> nat \<times> nat"

text \<open>Modelled from the spec: the Employee and the Withdrawal Transaction of the data
  model.\<close>

record employee =
  emp_id :: nat
  emp_name :: string
  designation :: string
  monthly_salary :: rat
  join_date :: date

record transaction =
  txn_id :: nat
  employee_id :: nat
  amount :: rat
  txn_date :: date
  txn_note :: "string option"

text \<open>Modelled from the spec: the persisted store (employee and transaction tables); the
  transactions are kept in the order of their creation, and ids are never used twice.\<close>

record ledger =
  employees :: "employee list"
  transactions :: "transaction list"
  next_emp_id :: nat
  next_txn_id :: nat

text \<open>Modelled from the spec: the error taxonomy. A validation error names the field and
  carries the computed remaining balance where there is one; a not-found error carries the
  id that was referenced.\<close>

datatype error = ValidationError string "rat option" | NotFoundError nat

definition empty_ledger :: ledger where
  "empty_ledger = \<lparr>employees = [], transactions = [], next_emp_id = 1, next_txn_id = 1\<rparr>"

text \<open>Modelled from the spec: a join date must be a valid calendar date.\<close>

definition leap_year :: "nat \<Rightarrow> bool" where
  "leap_year y = (y mod 4 = 0 \<and> (y mod 100 \<noteq> 0 \<or> y mod 400 = 0))"

definition days_in_month :: "nat \<Rightarrow> nat \<Rightarrow> nat" where
  "days_in_month y m =
     (if m = 2 then (if leap_year y then 29 else 28)
      else if m = 4 \<or> m = 6 \<or> m = 9 \<or> m = 11 then 30 else 31)"

fun valid_date :: "date \<Rightarrow> bool" where
  "valid_date (y, m, d) = (1 \<le> m \<and> m \<le> 12 \<and> 1 \<le> d \<and> d \<le> days_in_month y m)"

text \<open>Modelled from the spec: the derived quantities
  \<^verbatim>\<open>withdrawn(employee) = sum of amount over its transactions\<close> and
  \<^verbatim>\<open>remaining(employee) = monthly_salary - withdrawn(employee)\<close>.\<close>

definition transactions_of :: "ledger \<Rightarrow> nat \<Rightarrow> transaction list" where
  "transactions_of st i = filter (\<lambda>t. employee_id t = i) (transactions st)"

definition withdrawn :: "ledger \<Rightarrow> nat \<Rightarrow> rat" where
  "withdrawn st i = sum_list (map amount (transactions_of st i))"

definition remaining :: "ledger \<Rightarrow> employee \<Rightarrow> rat" where
  "remaining st e = monthly_salary e - withdrawn st (emp_id e)"

text \<open>Modelled from the spec: an id references an existing employee or is unknown.\<close>

definition find_employee :: "ledger \<Rightarrow> nat \<Rightarrow> employee option" where
  "find_employee st i = find (\<lambda>e. emp_id e = i) (employees st)"

text \<open>Modelled from the spec: \<^verbatim>\<open>addEmployee(name, designation, monthly_salary, join_date)\<close>,
  which fails with a validation error on an empty name, a negative salary or an invalid
  date, and otherwise persists a new employee with zero transactions.\<close>

definition addEmployee ::
  "string \<Rightarrow> string \<Rightarrow> rat \<Rightarrow> date \<Rightarrow> ledger \<Rightarrow> error + (employee \<times> ledger)" where
  "addEmployee name des salary joined st =
     (if name = [] then Inl (ValidationError ''name'' None)
      else if salary < 0 then Inl (ValidationError ''monthly_salary'' None)
      else if \<not> valid_date joined then Inl (ValidationError ''join_date'' None)
      else
        let e = \<lparr>emp_id = next_emp_id st, emp_name = name, designation = des,
                 monthly_salary = salary, join_date = joined\<rparr>
        in Inr (e, st\<lparr>employees := employees st @ [e], next_emp_id := Suc (next_emp_id st)\<rparr>))"

text \<open>Modelled from the spec: \<^verbatim>\<open>recordWithdrawal(employee_id, amount, date?, note?)\<close>. It fails
  with \<^verbatim>\<open>NotFoundError\<close> if the employee is unknown and with \<^verbatim>\<open>ValidationError\<close>, carrying the
  remaining balance computed at call time, if the amount is not positive or exceeds that
  balance; otherwise it persists a new transaction, dated today when no date is given.\<close>

definition recordWithdrawal ::
  "date \<Rightarrow> nat \<Rightarrow> rat \<Rightarrow> date option \<Rightarrow> string option \<Rightarrow> ledger \<Rightarrow> error + (transaction \<times> ledger)" where
  "recordWithdrawal today i a d n st =
     (case find_employee st i of
        None \<Rightarrow> Inl (NotFoundError i)
      | Some e \<Rightarrow>
          if a \<le> 0 then Inl (ValidationError ''amount'' (Some (remaining st e)))
          else if a > remaining st e then Inl (ValidationError ''amount'' (Some (remaining st e)))
          else
            let t = \<lparr>txn_id = next_txn_id st, employee_id = i, amount = a,
                     txn_date = (case d of None \<Rightarrow> today | Some x \<Rightarrow> x), txn_note = n\<rparr>
            in Inr (t, st\<lparr>transactions := transactions st @ [t], next_txn_id := Suc (next_txn_id st)\<rparr>))"

text \<open>Modelled from the spec: a sequence of \<^verbatim>\<open>recordWithdrawal\<close> calls, each against the
  ledger that the call before it left; the sequence stops at the first call that fails.\<close>

record withdrawal_request =
  req_employee :: nat
  req_amount :: rat
  req_date :: "date option"
  req_note :: "string option"

fun recordWithdrawals :: "date \<Rightarrow> withdrawal_request list \<Rightarrow> ledger \<Rightarrow> error + ledger" where
  "recordWithdrawals today [] st = Inr st"
| "recordWithdrawals today (r # rs) st =
     (case recordWithdrawal today (req_employee r) (req_amount r) (req_date r) (req_note r) st of
        Inl err \<Rightarrow> Inl err
      | Inr (t, st') \<Rightarrow> recordWithdrawals today rs st')"

text \<open>Modelled from the spec: \<^verbatim>\<open>deleteEmployee(id)\<close>, which fails with \<^verbatim>\<open>NotFoundError\<close> if the id
  is unknown and otherwise removes the employee and all its transactions in one step.\<close>

definition deleteEmployee :: "nat \<Rightarrow> ledger \<Rightarrow> error + ledger" where
  "deleteEmployee i st =
     (case find_employee st i of
        None \<Rightarrow> Inl (NotFoundError i)
      | Some e \<Rightarrow>
          Inr (st\<lparr>employees := filter (\<lambda>e. emp_id e \<noteq> i) (employees st),
                  transactions := filter (\<lambda>t. employee_id t \<noteq> i) (transactions st)\<rparr>))"

text \<open>Modelled from the spec: \<^verbatim>\<open>getDashboardSummary()\<close>, a function of the store alone. The
  recent transactions are the first ten in the order of descending date, the later
  created first among those of one date; creation order is the order of the ids.\<close>

record dashboard_summary =
  employee_count :: nat
  total_salary :: rat
  total_withdrawn :: rat
  total_remaining :: rat
  recent_transactions :: "transaction list"

definition recency :: "transaction \<Rightarrow> date \<times> nat" where
  "recency t = (txn_date t, txn_id t)"

definition getDashboardSummary :: "ledger \<Rightarrow> dashboard_summary" where
  "getDashboardSummary st =
     (let salary = sum_list (map monthly_salary (employees st));
          paid = sum_list (map amount (transactions st))
      in \<lparr>employee_count = length (employees st),
          total_salary = salary,
          total_withdrawn = paid,
          total_remaining = salary - paid,
          recent_transactions = take 10 (rev (sort_key recency (transactions st)))\<rparr>)"

subsection \<open>An example ledger\<close>

text \<open>The scenario of the specification: employee A with a monthly salary of 30000, in the
  ledger after A was added and after three withdrawals were recorded.\<close>

definition employee_A :: employee where
  "employee_A = \<lparr>emp_id = 1, emp_name = ''A'', designation = ''Cook'', monthly_salary = 30000,
     join_date = (2024, 1, 1)\<rparr>"

definition ledger_A :: ledger where
  "ledger_A = \<lparr>employees = [employee_A], transactions = [], next_emp_id = 2, next_txn_id = 1\<rparr>"

definition requests_A :: "withdrawal_request list" where
  "requests_A =
     [\<lparr>req_employee = 1, req_amount = 10000, req_date = None, req_note = None\<rparr>,
      \<lparr>req_employee = 1, req_amount = 15000, req_date = None, req_note = Some ''advance''\<rparr>,
      \<lparr>req_employee = 1, req_amount = 5000, req_date = Some (2024, 5, 20), req_note = None\<rparr>]"

definition withdrawals_A :: "transaction list" where
  "withdrawals_A =
     [\<lparr>txn_id = 1, employee_id = 1, amount = 10000, txn_date = (2024, 6, 1), txn_note = None\<rparr>,
      \<lparr>txn_id = 2, employee_id = 1, amount = 15000, txn_date = (2024, 6, 1), txn_note = Some ''advance''\<rparr>,
      \<lparr>txn_id = 3, employee_id = 1, amount = 5000, txn_date = (2024, 5, 20), txn_note = None\<rparr>]"

definition ledger_A_paid :: ledger where
  "ledger_A_paid = \<lparr>employees = [employee_A], transactions = withdrawals_A, next_emp_id = 2,
     next_txn_id = 4\<rparr>"

text \<open>Employee B, with a monthly salary of 100.1, in the ledger after one withdrawal of 0.2
  was recorded.\<close>

definition employee_B :: employee where
  "employee_B = \<lparr>emp_id = 2, emp_name = ''B'', designation = ''Guard'', monthly_salary = 1001 / 10,
     join_date = (2024, 1, 1)\<rparr>"

definition ledger_B :: ledger where
  "ledger_B = \<lparr>employees = [employee_B],
     transactions = [\<lparr>txn_id = 1, employee_id = 2, amount = 1 / 5, txn_date = (2024, 6, 1),
       txn_note = None\<rparr>],
     next_emp_id = 3, next_txn_id = 2\<rparr>"


section \<open>Properties of the browser script\<close>

subsection \<open>Rounding to binary64\<close>

text \<open>The binary logarithm and the rounding of the scaled significand meet their
  specifications, so that \<open>nearest_binary64\<close> yields a value with a significand of 53 bits
  that is at least as near to its argument as every other such value.\<close>

lemma ilog2_bounds: "0 < n \<Longrightarrow> 2 ^ ilog2 n \<le> n \<and> n < 2 * 2 ^ ilog2 n"
proof (induction n rule: ilog2.induct)
  case (1 n)
  show ?case
  proof (cases "n < 2")
    case True
    with "1.prems" show ?thesis
      by (simp add: ilog2.simps [of n])
  next
    case False
    then have "0 < n div 2"
      by simp
    with "1.IH" False have "2 ^ ilog2 (n div 2) \<le> n div 2" "n div 2 < 2 * 2 ^ ilog2 (n div 2)"
      by simp_all
    moreover have "ilog2 n = Suc (ilog2 (n div 2))"
      using False by (simp add: ilog2.simps [of n])
    ultimately show ?thesis
      by simp linarith
  qed
qed

lemma two_powi_neg: "(2 :: rat) powi (- int j) = 1 / 2 ^ j"
  by (simp add: power_int_minus_divide)

lemma floor_log2_bounds:
  assumes "0 < a"
  shows "2 powi floor_log2 a \<le> a" and "a < 2 powi (floor_log2 a + 1)"
proof -
  show "2 powi floor_log2 a \<le> a"
  proof (cases "1 \<le> a")
    case True
    then have n: "0 < nat \<lfloor>a\<rfloor>"
      by simp
    have "(2 :: rat) ^ ilog2 (nat \<lfloor>a\<rfloor>) = of_nat (2 ^ ilog2 (nat \<lfloor>a\<rfloor>))"
      by simp
    also have "\<dots> \<le> of_nat (nat \<lfloor>a\<rfloor>)"
      using ilog2_bounds [OF n] by (simp only: of_nat_le_iff)
    also have "\<dots> \<le> a"
      using True by simp
    finally show ?thesis
      using True by (simp add: floor_log2_def)
  next
    case False
    define c where "c = nat \<lceil>1 / a\<rceil>"
    from False assms have b: "1 < 1 / a"
      by simp
    then have "1 < \<lceil>1 / a\<rceil>"
      by (simp add: less_ceiling_iff)
    then have c: "0 < c - 1"
      by (simp add: c_def)
    have "1 / a \<le> of_int \<lceil>1 / a\<rceil>"
      by (rule le_of_int_ceiling)
    also have "\<dots> = of_nat c"
      using \<open>1 < \<lceil>1 / a\<rceil>\<close> by (simp add: c_def)
    also have "c \<le> 2 * 2 ^ ilog2 (c - 1)"
      using ilog2_bounds [OF c] by linarith
    then have "(of_nat c :: rat) \<le> of_nat (2 * 2 ^ ilog2 (c - 1))"
      by (simp only: of_nat_le_iff)
    finally have "1 / a \<le> 2 ^ Suc (ilog2 (c - 1))"
      by simp
    with assms have "1 / 2 ^ Suc (ilog2 (c - 1)) \<le> a"
      by (simp add: field_simps)
    then show ?thesis
      using False unfolding floor_log2_def c_def [symmetric]
      by (simp only: if_False two_powi_neg)
  qed
  show "a < 2 powi (floor_log2 a + 1)"
  proof (cases "1 \<le> a")
    case True
    then have n: "0 < nat \<lfloor>a\<rfloor>"
      by simp
    have "a < of_int \<lfloor>a\<rfloor> + 1"
      by linarith
    also have "\<dots> = of_nat (nat \<lfloor>a\<rfloor> + 1)"
      using True by simp
    also have "nat \<lfloor>a\<rfloor> + 1 \<le> 2 * 2 ^ ilog2 (nat \<lfloor>a\<rfloor>)"
      using ilog2_bounds [OF n] by simp
    then have "(of_nat (nat \<lfloor>a\<rfloor> + 1) :: rat) \<le> of_nat (2 * 2 ^ ilog2 (nat \<lfloor>a\<rfloor>))"
      by (simp only: of_nat_le_iff)
    finally have "a < 2 ^ Suc (ilog2 (nat \<lfloor>a\<rfloor>))"
      by simp
    moreover have "floor_log2 a + 1 = int (Suc (ilog2 (nat \<lfloor>a\<rfloor>)))"
      using True by (simp add: floor_log2_def)
    ultimately show ?thesis
      by (simp only: power_int_of_nat)
  next
    case False
    define c where "c = nat \<lceil>1 / a\<rceil>"
    from False assms have b: "1 < 1 / a"
      by simp
    then have "1 < \<lceil>1 / a\<rceil>"
      by (simp add: less_ceiling_iff)
    then have c: "0 < c - 1"
      by (simp add: c_def)
    have "(2 :: rat) ^ ilog2 (c - 1) = of_nat (2 ^ ilog2 (c - 1))"
      by simp
    also have "\<dots> \<le> of_nat (c - 1)"
      using ilog2_bounds [OF c] by (simp only: of_nat_le_iff)
    also have "\<dots> = of_int (int (c - 1))"
      by simp
    also have "int (c - 1) = \<lceil>1 / a\<rceil> - 1"
    proof -
      have "int c = \<lceil>1 / a\<rceil>"
        using \<open>1 < \<lceil>1 / a\<rceil>\<close> unfolding c_def by (intro int_nat_eq [THEN trans]) simp
      moreover have "int (c - 1) = int c - 1"
        using c by (intro of_nat_diff [THEN trans]) simp_all
      ultimately show ?thesis by simp
    qed
    also have "(of_int (\<lceil>1 / a\<rceil> - 1) :: rat) = of_int \<lceil>1 / a\<rceil> - 1"
      by simp
    also have "\<dots> < 1 / a"
      by linarith
    finally have "a < 1 / 2 ^ ilog2 (c - 1)"
      using assms by (simp add: field_simps)
    moreover have "floor_log2 a + 1 = - int (ilog2 (c - 1))"
      using False by (simp add: floor_log2_def c_def)
    ultimately show ?thesis
      by (simp only: two_powi_neg)
  qed
qed

lemma floor_log2_unique:
  assumes "2 powi p \<le> a" "a < 2 powi (p + 1)"
  shows "floor_log2 a = p"
proof -
  have pos: "0 < a"
    using assms(1) by (rule less_le_trans [rotated]) simp
  note b = floor_log2_bounds [OF pos]
  have "\<not> floor_log2 a < p"
  proof
    assume "floor_log2 a < p"
    then have "(2 :: rat) powi (floor_log2 a + 1) \<le> 2 powi p"
      by (intro power_int_increasing) simp_all
    with b(2) assms(1) show False by simp
  qed
  moreover have "\<not> p < floor_log2 a"
  proof
    assume "p < floor_log2 a"
    then have "(2 :: rat) powi (p + 1) \<le> 2 powi floor_log2 a"
      by (intro power_int_increasing) simp_all
    with b(1) assms(2) show False by simp
  qed
  ultimately show ?thesis by simp
qed

lemma round_half_even_nearest:
  "\<bar>of_int (round_half_even z) - z\<bar> \<le> \<bar>of_int k - z\<bar>"
proof -
  have f: "of_int \<lfloor>z\<rfloor> \<le> z" "z < of_int \<lfloor>z\<rfloor> + 1"
    by linarith+
  have "k \<le> \<lfloor>z\<rfloor> \<or> \<lfloor>z\<rfloor> + 1 \<le> k"
    by linarith
  then have k: "(of_int k :: rat) \<le> of_int \<lfloor>z\<rfloor> \<or> (of_int \<lfloor>z\<rfloor> :: rat) + 1 \<le> of_int k"
    by (metis of_int_1 of_int_add of_int_le_iff)
  show ?thesis
    using f k by (auto simp: round_half_even_def Let_def; linarith)
qed

lemma round_half_even_unique:
  assumes "\<bar>z - of_int m\<bar> < 1 / 2"
  shows "round_half_even z = m"
proof -
  have "\<bar>of_int (round_half_even z) - z\<bar> \<le> \<bar>of_int m - z\<bar>"
    by (rule round_half_even_nearest)
  with assms have "\<bar>(of_int (round_half_even z) :: rat) - of_int m\<bar> < 1"
    by linarith
  then have "\<bar>(of_int (round_half_even z - m) :: rat)\<bar> < of_int 1"
    by simp
  then have "\<bar>round_half_even z - m\<bar> < 1"
    by (simp only: of_int_abs [symmetric] of_int_less_iff)
  then show ?thesis by simp
qed

lemma round_half_even_bounds:
  assumes "0 \<le> z" "z < of_int M"
  shows "0 \<le> round_half_even z" "round_half_even z \<le> M"
proof -
  have "0 \<le> \<lfloor>z\<rfloor>" "\<lfloor>z\<rfloor> < M"
    using assms by (simp_all add: floor_less_iff)
  then show "0 \<le> round_half_even z" "round_half_even z \<le> M"
    by (auto simp: round_half_even_def Let_def)
qed

lemma nearest_binary64_scaled:
  "nearest_binary64 a / 2 powi binary64_exponent a
     = of_int (round_half_even (a / 2 powi binary64_exponent a))"
  by (simp add: nearest_binary64_def Let_def)

lemma nearest_binary64_multiple:
  "\<bar>nearest_binary64 a - a\<bar> \<le> \<bar>of_int k * 2 powi binary64_exponent a - a\<bar>"
proof -
  define e where "e = binary64_exponent a"
  define z where "z = a / 2 powi e"
  have p: "(0 :: rat) < 2 powi e"
    by simp
  have a: "a = z * 2 powi e"
    by (simp add: z_def)
  have "\<bar>of_int (round_half_even z) - z\<bar> * 2 powi e \<le> \<bar>of_int k - z\<bar> * 2 powi e"
    using round_half_even_nearest [of z k] p by (simp only: mult_le_cancel_right_pos)
  moreover have "\<bar>of_int j - z\<bar> * 2 powi e = \<bar>of_int j * 2 powi e - a\<bar>" for j
  proof -
    have "of_int j * 2 powi e - a = (of_int j - z) * 2 powi e"
      by (simp add: a [symmetric] algebra_simps z_def)
    then show ?thesis
      using p by (simp add: abs_mult)
  qed
  ultimately show ?thesis
    by (simp add: nearest_binary64_def Let_def e_def [symmetric] z_def [symmetric])
qed

lemma binary64_exponent_below:
  assumes "0 < a"
  shows "a < 2 powi (binary64_exponent a + 53)"
proof -
  have "a < 2 powi (floor_log2 a + 1)"
    using assms by (rule floor_log2_bounds)
  also have "\<dots> \<le> 2 powi (binary64_exponent a + 53)"
    by (intro power_int_increasing) (simp_all add: binary64_exponent_def)
  finally show ?thesis .
qed

lemma binary64_exponent_above:
  assumes "0 < a" "- 1074 < binary64_exponent a"
  shows "2 powi (binary64_exponent a + 52) \<le> a"
proof -
  from assms(2) have "binary64_exponent a = floor_log2 a - 52"
    by (simp add: binary64_exponent_def max_def split: if_splits)
  with floor_log2_bounds(1) [OF assms(1)] show ?thesis
    by simp
qed

lemma nearest_binary64_representable:
  assumes "0 < a"
  shows "representable (nearest_binary64 a)"
proof -
  define e where "e = binary64_exponent a"
  define z where "z = a / 2 powi e"
  have "2 powi (e + 53) = (2 :: rat) powi e * 2 ^ 53"
    by (subst power_int_add) simp_all
  with binary64_exponent_below [OF assms] have "z < 2 ^ 53"
    by (simp add: z_def e_def field_simps)
  then have "z < of_int (2 ^ 53)"
    by simp
  moreover have "0 \<le> z"
    using assms by (simp add: z_def)
  ultimately have "0 \<le> round_half_even z" "round_half_even z \<le> 2 ^ 53"
    using round_half_even_bounds [of z "2 ^ 53"] by blast+
  moreover have "- 1074 \<le> e"
    by (simp add: e_def binary64_exponent_def)
  moreover have "nearest_binary64 a = of_int (round_half_even z) * 2 powi e"
    by (simp add: nearest_binary64_def Let_def e_def z_def)
  ultimately show ?thesis
    unfolding representable_def by blast
qed

text \<open>The rounded value is at least as near as every representable value.\<close>

lemma nearest_binary64_nearest:
  assumes "0 < a" "representable d"
  shows "\<bar>nearest_binary64 a - a\<bar> \<le> \<bar>d - a\<bar>"
proof -
  define e where "e = binary64_exponent a"
  from assms(2) obtain m e' where d: "d = of_int m * 2 powi e'" "0 \<le> m" "m \<le> 2 ^ 53" "- 1074 \<le> e'"
    unfolding representable_def by blast
  show ?thesis
  proof (cases "e \<le> e'")
    case True
    then have "(2 :: rat) powi e' = 2 powi (e' - e) * 2 powi e"
      by (subst power_int_add [symmetric]) simp_all
    also have "(2 :: rat) powi (e' - e) = of_int (2 ^ nat (e' - e))"
      using True by (simp add: power_int_nonneg_exp)
    finally have "d = of_int (m * 2 ^ nat (e' - e)) * 2 powi e"
      by (simp add: d(1))
    then show ?thesis
      using nearest_binary64_multiple [of a "m * 2 ^ nat (e' - e)"] by (simp add: e_def)
  next
    case False
    with d(4) have low: "- 1074 < binary64_exponent a"
      by (simp add: e_def)
    define B where "B = (2 :: rat) powi (e + 52)"
    have B: "B \<le> a"
      unfolding B_def e_def using assms(1) low by (rule binary64_exponent_above)
    have "B = of_int (2 ^ 52) * 2 powi e"
      unfolding B_def by (subst power_int_add) (simp_all add: mult.commute)
    then have "\<bar>nearest_binary64 a - a\<bar> \<le> \<bar>B - a\<bar>"
      using nearest_binary64_multiple [of a "2 ^ 52"] by (simp add: e_def)
    moreover have "d \<le> B"
    proof -
      have "d \<le> 2 ^ 53 * 2 powi e'"
        using d(3) unfolding d(1)
        by (intro mult_right_mono) (simp_all add: of_int_le_numeral_power_cancel_iff)
      also have "\<dots> = 2 powi (e' + 53)"
        by (subst power_int_add) (simp_all add: mult.commute)
      also have "\<dots> \<le> B"
        unfolding B_def using False by (intro power_int_increasing) simp_all
      finally show ?thesis .
    qed
    ultimately show ?thesis
      using B by linarith
  qed
qed

lemma nearest_binary64_certificate:
  assumes "2 powi p \<le> a" "a < 2 powi (p + 1)"
    and "\<bar>a / 2 powi max (- 1074) (p - 52) - of_int m\<bar> < 1 / 2"
  shows "nearest_binary64 a = of_int m * 2 powi max (- 1074) (p - 52)"
proof -
  have "floor_log2 a = p"
    using assms(1,2) by (rule floor_log2_unique)
  then have "binary64_exponent a = max (- 1074) (p - 52)"
    by (simp add: binary64_exponent_def)
  moreover have "round_half_even (a / 2 powi max (- 1074) (p - 52)) = m"
    using assms(3) by (rule round_half_even_unique)
  ultimately show ?thesis
    by (simp add: nearest_binary64_def Let_def)
qed

lemma binary64_positive:
  assumes "0 < a" "0 < nearest_binary64 a" "nearest_binary64 a < 2 ^ 1024"
  shows "binary64 a = Fin (nearest_binary64 a)" "binary64 (- a) = Fin (- nearest_binary64 a)"
  using assms by (simp_all add: binary64_def Let_def)

lemma representable_nonneg: "representable v \<Longrightarrow> 0 \<le> v"
  unfolding representable_def by auto

lemma nearest_binary64_nonneg: "0 < a \<Longrightarrow> 0 \<le> nearest_binary64 a"
  by (intro representable_nonneg nearest_binary64_representable)

lemma binary64_not_NaN [simp]: "binary64 r \<noteq> NaN"
  by (simp add: binary64_def Let_def)

lemma binary64_Fin:
  assumes "binary64 r = Fin q"
  shows "representable \<bar>q\<bar>" and "\<bar>q\<bar> < 2 ^ 1024"
proof -
  have zero: "representable 0"
    unfolding representable_def by (intro exI [of _ 0]) simp
  show "representable \<bar>q\<bar>"
  proof (cases "r = 0")
    case True
    with assms zero show ?thesis by (simp add: binary64_def)
  next
    case False
    then have "representable (nearest_binary64 \<bar>r\<bar>)" "0 \<le> nearest_binary64 \<bar>r\<bar>"
      by (simp_all add: nearest_binary64_representable nearest_binary64_nonneg)
    with assms False zero show ?thesis
      by (auto simp: binary64_def Let_def split: if_splits)
  qed
  show "\<bar>q\<bar> < 2 ^ 1024"
  proof (cases "r = 0")
    case True
    with assms show ?thesis by (simp add: binary64_def)
  next
    case False
    then have "0 \<le> nearest_binary64 \<bar>r\<bar>"
      by (simp add: nearest_binary64_nonneg)
    with assms False show ?thesis
      by (auto simp: binary64_def Let_def split: if_splits)
  qed
qed

text \<open>A whole number below \<open>2^53\<close> is a binary64 value.\<close>

lemma nearest_binary64_whole:
  assumes "0 < n" "n < 2 ^ 53"
  shows "nearest_binary64 (of_nat n) = of_nat n"
proof -
  have fl: "floor_log2 (of_nat n) = int (ilog2 n)"
    using assms(1) by (simp add: floor_log2_def)
  have "2 ^ ilog2 n \<le> n"
    using ilog2_bounds [OF assms(1)] by simp
  have small: "ilog2 n < 53"
  proof (rule ccontr)
    assume "\<not> ilog2 n < 53"
    then have "(2 :: nat) ^ 53 \<le> 2 ^ ilog2 n"
      by (intro power_increasing) simp_all
    with \<open>2 ^ ilog2 n \<le> n\<close> assms(2) show False
      by simp
  qed
  define j where "j = 52 - ilog2 n"
  have e: "binary64_exponent (of_nat n) = - int j"
    using small by (simp add: binary64_exponent_def fl j_def)
  have "(of_nat n :: rat) / 2 powi (- int j) = of_int (int n * 2 ^ j)"
    by (simp add: two_powi_neg)
  then have "round_half_even (of_nat n / 2 powi (- int j)) = int n * 2 ^ j"
    by (intro round_half_even_unique) simp
  then show ?thesis
    by (simp add: nearest_binary64_def Let_def e) (simp add: two_powi_neg)
qed

lemma binary64_whole:
  assumes "n < 2 ^ 53"
  shows "binary64 (of_nat n) = Fin (of_nat n) \<and> binary64 (- of_nat n) = Fin (- of_nat n)"
proof -
  have big: "(of_nat n :: rat) < 2 ^ 1024"
  proof -
    have "n < 2 ^ 1024"
      using assms by (rule less_trans) simp
    then have "(of_nat n :: rat) < of_nat (2 ^ 1024)"
      by (simp only: of_nat_less_iff)
    then show ?thesis by simp
  qed
  show ?thesis
  proof (cases "n = 0")
    case True
    then show ?thesis
      by (simp add: binary64_def)
  next
    case False
    then have n: "0 < n" by simp
    with big nearest_binary64_whole [OF n assms] show ?thesis
      by (simp add: binary64_def Let_def)
  qed
qed

lemma binary64_numeral [simp]:
  "(numeral k :: nat) < 2 ^ 53 \<Longrightarrow> binary64 (numeral k) = Fin (numeral k)"
  "(numeral k :: nat) < 2 ^ 53 \<Longrightarrow> binary64 (- numeral k) = Fin (- numeral k)"
  using binary64_whole [of "numeral k"] by simp_all

lemma binary64_one [simp]: "binary64 1 = Fin 1" "binary64 (- 1) = Fin (- 1)"
  using binary64_whole [of 1] by simp_all

lemma binary64_zero [simp]: "binary64 0 = Fin 0"
  by (simp add: binary64_def)

text \<open>Every binary64 value is a dyadic rational, and one thousandth is not the difference
  of two dyadic rationals.\<close>

lemma representable_dyadic:
  assumes "representable v"
  obtains k n where "v = of_int k / 2 ^ n"
proof -
  from assms obtain m e where v: "v = of_int m * 2 powi e"
    unfolding representable_def by blast
  show thesis
  proof (cases "0 \<le> e")
    case True
    then have "v = of_int (m * 2 ^ nat e) / 2 ^ 0"
      by (simp add: v power_int_nonneg_exp)
    then show ?thesis by (rule that)
  next
    case False
    then have "e = - int (nat (- e))"
      by simp
    then have "(2 :: rat) powi e = 1 / 2 ^ nat (- e)"
      by (metis two_powi_neg)
    then have "v = of_int m / 2 ^ nat (- e)"
      by (simp add: v)
    then show ?thesis by (rule that)
  qed
qed

lemma five_dvd_double: "(5 :: int) dvd 2 * x \<Longrightarrow> 5 dvd x"
proof -
  assume "(5 :: int) dvd 2 * x"
  then have "5 dvd 3 * (2 * x)"
    by (rule dvd_mult)
  moreover have "3 * (2 * x) = x + 5 * x"
    by simp
  ultimately have "5 dvd x + 5 * x"
    by simp
  moreover have "(5 :: int) dvd 5 * x"
    by simp
  ultimately show "5 dvd x"
    by (simp only: dvd_add_left_iff)
qed
lemma five_not_dvd_power_two: "\<not> (5 :: int) dvd 2 ^ n"
proof (induction n)
  case 0
  show ?case by simp
next
  case (Suc n)
  show ?case
  proof
    assume "(5 :: int) dvd 2 ^ Suc n"
    then have "(5 :: int) dvd 2 * 2 ^ n"
      by (simp only: power_Suc)
    then have "(5 :: int) dvd 2 ^ n"
      by (rule five_dvd_double)
    with Suc show False by blast
  qed
qed

lemma thousandth_not_dyadic_difference:
  "(of_int k / 2 ^ n :: rat) - of_int k' / 2 ^ n' \<noteq> 1 / 1000"
proof
  assume eq: "(of_int k / 2 ^ n :: rat) - of_int k' / 2 ^ n' = 1 / 1000"
  have "(of_int k / 2 ^ n - of_int k' / 2 ^ n') * (1000 * (2 ^ n * 2 ^ n'))
      = (1000 * (of_int k * 2 ^ n' - of_int k' * 2 ^ n) :: rat)"
    by (simp add: left_diff_distrib right_diff_distrib)
  also have "(of_int k / 2 ^ n - of_int k' / 2 ^ n') * (1000 * (2 ^ n * 2 ^ n'))
      = (2 ^ n * 2 ^ n' :: rat)"
    unfolding eq by simp
  finally have "(of_int (1000 * (k * 2 ^ n' - k' * 2 ^ n)) :: rat) = of_int (2 ^ (n + n'))"
    by (simp add: power_add)
  then have "1000 * (k * 2 ^ n' - k' * 2 ^ n) = (2 :: int) ^ (n + n')"
    by (simp only: of_int_eq_iff)
  moreover have "(5 :: int) dvd 1000 * (k * 2 ^ n' - k' * 2 ^ n)"
    by (rule dvd_mult2) simp
  ultimately have "(5 :: int) dvd 2 ^ (n + n')"
    by simp
  then show False
    by (simp add: five_not_dvd_power_two)
qed

text \<open>The binary64 value of a rational in the normal range, from the integer nearest to
  its scaled significand.\<close>

lemma binary64_certificate:
  assumes "2 powi p \<le> a" "a < 2 powi (p + 1)" "- 1022 \<le> p" "p < 1023"
    and "\<bar>a / 2 powi (p - 52) - of_int m\<bar> < 1 / 2"
  shows "binary64 a = Fin (of_int m * 2 powi (p - 52))"
    and "binary64 (- a) = Fin (- (of_int m * 2 powi (p - 52)))"
proof -
  have e: "max (- 1074) (p - 52) = p - 52"
    using assms(3) by simp
  have pos: "0 < a"
    using assms(1) by (rule less_le_trans [rotated]) simp
  have v: "nearest_binary64 a = of_int m * 2 powi (p - 52)"
    using nearest_binary64_certificate [OF assms(1,2), of m] assms(5) by (simp only: e)
  have "representable (nearest_binary64 a)"
    using pos by (rule nearest_binary64_representable)
  have "2 powi (p - 1) \<le> a / 2"
    using assms(1) by (simp add: power_int_diff)
  have "\<bar>nearest_binary64 a - a\<bar> \<le> \<bar>of_int 0 * 2 powi binary64_exponent a - a\<bar>"
    by (rule nearest_binary64_multiple)
  then have "nearest_binary64 a \<le> 2 * a"
    using pos by simp
  also have "\<dots> < 2 * 2 powi (p + 1)"
    using assms(2) by simp
  also have "\<dots> = 2 powi (p + 2)"
    by (simp add: power_int_add)
  also have "\<dots> \<le> 2 powi 1024"
    using assms(4) by (intro power_int_increasing) simp_all
  finally have hi: "nearest_binary64 a < 2 ^ 1024"
    by simp
  have "\<bar>nearest_binary64 a - a\<bar> \<le> \<bar>of_int 1 * 2 powi binary64_exponent a - a\<bar>"
    by (rule nearest_binary64_multiple)
  moreover have "(2 :: rat) powi binary64_exponent a \<le> 2 powi (p - 52)"
  proof -
    have "floor_log2 a = p"
      using assms(1,2) by (rule floor_log2_unique)
    then show ?thesis
      by (simp add: binary64_exponent_def e)
  qed
  moreover have "(2 :: rat) powi (p - 52) < 2 powi p"
    by (intro power_int_strict_increasing) simp_all
  ultimately have "\<bar>nearest_binary64 a - a\<bar> \<le> a - 2 powi binary64_exponent a"
    using assms(1) by simp
  then have "2 powi binary64_exponent a \<le> nearest_binary64 a"
    by linarith
  then have "0 < nearest_binary64 a"
    by (rule less_le_trans [rotated]) simp
  with pos hi show "binary64 a = Fin (of_int m * 2 powi (p - 52))"
    and "binary64 (- a) = Fin (- (of_int m * 2 powi (p - 52)))"
    using binary64_positive [of a] by (simp_all only: v)
qed

subsection \<open>Evaluation and comparison lemmas\<close>

lemma floor_rat_numeral_div [simp]:
  "\<lfloor>(numeral a / numeral b :: rat)\<rfloor> = numeral a div numeral b"
  using floor_divide_of_int_eq [of "numeral a" "numeral b", where ?'a = rat] by simp

lemma digit_char_numerals [simp]:
  "digit_char 0 = CHR ''0''" "digit_char 1 = CHR ''1''" "digit_char 2 = CHR ''2''"
  "digit_char 3 = CHR ''3''" "digit_char 4 = CHR ''4''" "digit_char 5 = CHR ''5''"
  "digit_char 6 = CHR ''6''" "digit_char 7 = CHR ''7''" "digit_char 8 = CHR ''8''"
  "digit_char 9 = CHR ''9''" "digit_char (Suc 0) = CHR ''1''"
  by code_simp+

lemmas dec_digits_numerals [simp] =
  dec_digits.simps [of 0] dec_digits.simps [of 1] dec_digits.simps [of "Suc 0"]
  dec_digits.simps [of "numeral k"] for k

lemmas parse_eval = parseFloat_def TrimStart_def trim_prefixes.simps StrWhiteSpaceChar_def
  StrUnsignedDecimalLiteral_def ExponentPart_def is_digit_def digits_val_def digit_val_def

lemmas format_eval = formatNumber_def format_scaled_def round_half_expand_def
  en_IN_grouping_def fraction_part_def

lemma Number_lessThan_NaN_right [simp]: "Number_lessThan x NaN = None"
  by (cases x) simp_all

lemma Number_lessThan_reflect_left [simp]:
  "Number_lessThan (reflect_number r) a = Number_lessThan r a"
  by (cases r; cases a) (simp_all add: reflect_number_def)

lemma Number_lessThan_reflect_right [simp]:
  "Number_lessThan a (reflect_number r) = Number_lessThan a r"
  by (cases r; cases a) (simp_all add: reflect_number_def)

lemma Number_lessThan_trans:
  "Number_lessThan a b = Some True \<Longrightarrow> Number_lessThan b c = Some True \<Longrightarrow>
   Number_lessThan a c = Some True"
  by (cases a; cases b; cases c) simp_all

lemma openWithdrawalModal_max [simp]:
  "withdrawal_amount_max (openWithdrawalModal i n t w p) = reflect_number (js_sub t w)"
  by (simp add: openWithdrawalModal_def Let_def)

lemma openWithdrawalModal_innerHTML [simp]:
  "salaryInfo_innerHTML (openWithdrawalModal i n t w p) =
     salaryInfo_html n (formatNumber t) (formatNumber w) (formatNumber (js_sub t w))"
  by (simp add: openWithdrawalModal_def Let_def)

lemma js_sub_Fin [simp]: "js_sub (Fin a) (Fin b) = binary64 (a - b)"
  by (simp add: js_sub_def)

lemma binary64_whole_difference:
  assumes "s < 2 ^ 53" "k < 2 ^ 53"
  shows "binary64 (of_nat s - of_nat k) = Fin (of_nat s - of_nat k)"
proof (cases "k \<le> s")
  case True
  then have eq: "(of_nat s - of_nat k :: rat) = of_nat (s - k)"
    by (rule of_nat_diff [symmetric])
  have "s - k < 2 ^ 53"
    using assms(1) by (rule le_less_trans [rotated]) (rule diff_le_self)
  then show ?thesis
    unfolding eq by (rule binary64_whole [THEN conjunct1])
next
  case False
  then have "s \<le> k"
    by simp
  then have "(of_nat k - of_nat s :: rat) = of_nat (k - s)"
    by (rule of_nat_diff [symmetric])
  then have eq: "(of_nat s - of_nat k :: rat) = - of_nat (k - s)"
    by linarith
  have "k - s < 2 ^ 53"
    using assms(2) by (rule le_less_trans [rotated]) (rule diff_le_self)
  then show ?thesis
    unfolding eq by (rule binary64_whole [THEN conjunct2])
qed

text \<open>The binary64 values of the decimals 100.1, 0.2, 99.9, 1.4 and 0.9, and the differences
  that the script computes from them.\<close>

lemma binary64_decimals:
  "binary64 (1001 / 10) = Fin (3521955646092083 / 2 ^ 45)"
  "binary64 (1 / 5) = Fin (3602879701896397 / 2 ^ 54)"
  "binary64 (999 / 10) = Fin (3514918771674317 / 2 ^ 45)"
  "binary64 (7 / 5) = Fin (3152519739159347 / 2 ^ 51)"
  "binary64 (9 / 10) = Fin (8106479329266893 / 2 ^ 53)"
  "binary64 (1 / 2) = Fin (1 / 2)"
proof -
  show "binary64 (1001 / 10) = Fin (3521955646092083 / 2 ^ 45)"
    using binary64_certificate(1) [of 6 "1001 / 10" 7043911292184166]
    by (simp add: power_int_minus divide_simps)
  show "binary64 (1 / 5) = Fin (3602879701896397 / 2 ^ 54)"
    using binary64_certificate(1) [of "- 3" "1 / 5" 7205759403792794]
    by (simp add: power_int_minus divide_simps)
  show "binary64 (999 / 10) = Fin (3514918771674317 / 2 ^ 45)"
    using binary64_certificate(1) [of 6 "999 / 10" 7029837543348634]
    by (simp add: power_int_minus divide_simps)
  show "binary64 (7 / 5) = Fin (3152519739159347 / 2 ^ 51)"
    using binary64_certificate(1) [of 0 "7 / 5" 6305039478318694]
    by (simp add: power_int_minus divide_simps)
  show "binary64 (9 / 10) = Fin (8106479329266893 / 2 ^ 53)"
    using binary64_certificate(1) [of "- 1" "9 / 10" 8106479329266893]
    by (simp add: power_int_minus divide_simps)
  show "binary64 (1 / 2) = Fin (1 / 2)"
    using binary64_certificate(1) [of "- 1" "1 / 2" "2 ^ 52"]
    by (simp add: power_int_minus)
qed

lemma binary64_differences:
  "js_sub (binary64 (1001 / 10)) (binary64 (1 / 5)) = Fin (7029837543348633 / 2 ^ 46)"
  "js_sub (binary64 (7 / 5)) (binary64 (9 / 10)) = Fin (4503599627370495 / 2 ^ 53)"
proof -
  have "js_sub (binary64 (1001 / 10)) (binary64 (1 / 5))
      = binary64 (3521955646092083 / 2 ^ 45 - 3602879701896397 / 2 ^ 54)"
    by (simp only: binary64_decimals js_sub_Fin)
  also have "\<dots> = Fin (7029837543348633 / 2 ^ 46)"
    using binary64_certificate(1) [of 6 "3521955646092083 / 2 ^ 45 - 3602879701896397 / 2 ^ 54"
      7029837543348633]
    by (simp add: power_int_minus divide_simps)
  finally show "js_sub (binary64 (1001 / 10)) (binary64 (1 / 5)) = Fin (7029837543348633 / 2 ^ 46)" .
  have "js_sub (binary64 (7 / 5)) (binary64 (9 / 10))
      = binary64 (3152519739159347 / 2 ^ 51 - 8106479329266893 / 2 ^ 53)"
    by (simp only: binary64_decimals js_sub_Fin)
  also have "\<dots> = Fin (4503599627370495 / 2 ^ 53)"
    using binary64_certificate(1) [of "- 2" "3152519739159347 / 2 ^ 51 - 8106479329266893 / 2 ^ 53"
      9007199254740990]
    by (simp add: power_int_minus divide_simps)
  finally show "js_sub (binary64 (7 / 5)) (binary64 (9 / 10)) = Fin (4503599627370495 / 2 ^ 53)" .
qed

subsection \<open>The remaining balance of the withdrawal dialog\<close>

text \<open>
  Claim C1 does not hold of the script for amounts that are not whole numbers: the
  remaining balance of the dialog is a binary64 difference. For employee B, with a monthly
  salary of 100.1 and one withdrawal of 0.2, the remaining balance is 99.9, but the maximum
  that \<^verbatim>\<open>openWithdrawalModal\<close> sets is \<open>7029837543348633 / 2^46\<close> (99.89999999999999), which is
  less than 99.9 and is not the Number of 99.9. For a salary of 1.4 and a withdrawn total of
  0.9 the dialog shows a remaining balance of \<^verbatim>\<open>0\<close>, where the balance 0.5 is shown as \<^verbatim>\<open>1\<close>.
\<close>

theorem openWithdrawalModal_remaining_counterexample:
  "remaining ledger_B employee_B = 999 / 10
   \<and> withdrawal_amount_max
       (openWithdrawalModal ''2'' (emp_name employee_B) (binary64 (monthly_salary employee_B))
          (binary64 (withdrawn ledger_B (emp_id employee_B))) initial_page)
     = Fin (7029837543348633 / 2 ^ 46)
   \<and> (7029837543348633 / 2 ^ 46 :: rat) < remaining ledger_B employee_B
   \<and> withdrawal_amount_max
       (openWithdrawalModal ''2'' (emp_name employee_B) (binary64 (monthly_salary employee_B))
          (binary64 (withdrawn ledger_B (emp_id employee_B))) initial_page)
     \<noteq> binary64 (remaining ledger_B employee_B)
   \<and> formatNumber (js_sub (binary64 (7 / 5)) (binary64 (9 / 10))) = ''0''
   \<and> formatNumber (binary64 (7 / 5 - 9 / 10)) = ''1''"
proof -
  have a: "monthly_salary employee_B = 1001 / 10" "withdrawn ledger_B (emp_id employee_B) = 1 / 5"
    "remaining ledger_B employee_B = 999 / 10" "emp_name employee_B = ''B''"
    by (simp_all add: employee_B_def ledger_B_def remaining_def withdrawn_def transactions_of_def)
  have m: "withdrawal_amount_max
       (openWithdrawalModal ''2'' ''B'' (binary64 (1001 / 10)) (binary64 (1 / 5)) initial_page)
     = Fin (7029837543348633 / 2 ^ 46)"
    by (simp only: openWithdrawalModal_max binary64_differences reflect_number_def) simp
  have b: "(7 / 5 - 9 / 10 :: rat) = 1 / 2"
    by simp
  have c: "formatNumber (Fin (4503599627370495 / 2 ^ 53)) = ''0''" "formatNumber (Fin (1 / 2)) = ''1''"
    by (simp_all add: format_eval)
  have d: "(7029837543348633 / 2 ^ 46 :: rat) < 999 / 10"
    "Fin (7029837543348633 / 2 ^ 46) \<noteq> Fin (3514918771674317 / 2 ^ 45)"
    by simp_all
  show ?thesis
    unfolding a m
  proof (intro conjI)
    show "formatNumber (js_sub (binary64 (7 / 5)) (binary64 (9 / 10))) = ''0''"
      by (simp only: binary64_differences c)
    show "formatNumber (binary64 (7 / 5 - 9 / 10)) = ''1''"
      by (simp only: b binary64_decimals c)
    show "Fin (7029837543348633 / 2 ^ 46) \<noteq> binary64 (999 / 10)"
      unfolding binary64_decimals by (rule d(2))
  qed (rule refl d)+
qed

text \<open>
  Claim C1, amended. \<^verbatim>\<open>openWithdrawalModal\<close> computes the remaining balance as the Number
  \<^verbatim>\<open>totalSalary - withdrawn\<close>, which is the exact difference rounded to binary64; it writes the
  salary details with the total salary, the withdrawn total and this remaining balance, each
  shown through \<^verbatim>\<open>formatNumber\<close>, and sets the remaining balance as the maximum of the amount
  input. When the monthly salary of an employee and the sum of the amounts of the employee's
  transactions are whole numbers below \<open>2^53\<close>, the remaining balance that is set and shown is
  the monthly salary minus that sum.
\<close>

theorem openWithdrawalModal_remaining:
  \<open>withdrawal_amount_max (openWithdrawalModal i n (Fin t) (Fin w) p)
     = reflect_number (binary64 (t - w))
   \<and> withdrawal_amount_max (openWithdrawalModal i n x y p) = reflect_number (js_sub x y)
   \<and> salaryInfo_innerHTML (openWithdrawalModal i n x y p) = concat
       [''\<newline>'',
        ''        <h4 class="font-semibold text-gray-800 mb-3">Salary Details for '',
        n,
        ''</h4>\<newline>'',
        ''        <div class="space-y-2 text-sm">\<newline>'',
        ''            <div class="flex justify-between">\<newline>'',
        ''                <span class="text-gray-600">Total Salary:</span>\<newline>'',
        ''                <span class="font-semibold text-green-600">Rs '',
        formatNumber x,
        ''</span>\<newline>'',
        ''            </div>\<newline>'',
        ''            <div class="flex justify-between">\<newline>'',
        ''                <span class="text-gray-600">Already Withdrawn:</span>\<newline>'',
        ''                <span class="font-semibold text-orange-600">Rs '',
        formatNumber y,
        ''</span>\<newline>'',
        ''            </div>\<newline>'',
        ''            <div class="flex justify-between pt-2 border-t border-orange-200">\<newline>'',
        ''                <span class="text-gray-700 font-medium">Remaining Balance:</span>\<newline>'',
        ''                <span class="font-bold text-blue-600">Rs '',
        formatNumber (js_sub x y),
        ''</span>\<newline>'',
        ''            </div>\<newline>'',
        ''        </div>\<newline>'',
        ''    '']
   \<and> (monthly_salary e = of_nat s \<and> s < 2 ^ 53
        \<and> sum_list (map amount (filter (\<lambda>t. employee_id t = emp_id e) (transactions st))) = of_nat k
        \<and> k < 2 ^ 53 \<longrightarrow>
      js_sub (binary64 (monthly_salary e)) (binary64 (withdrawn st (emp_id e)))
        = Fin (monthly_salary e
               - sum_list (map amount (filter (\<lambda>t. employee_id t = emp_id e) (transactions st))))
      \<and> withdrawal_amount_max
          (openWithdrawalModal i n (binary64 (monthly_salary e))
             (binary64 (withdrawn st (emp_id e))) p)
        = Fin (monthly_salary e
               - sum_list (map amount (filter (\<lambda>t. employee_id t = emp_id e) (transactions st)))))\<close>
proof (intro conjI impI)
  show "withdrawal_amount_max (openWithdrawalModal i n (Fin t) (Fin w) p)
      = reflect_number (binary64 (t - w))"
    by simp
  show "withdrawal_amount_max (openWithdrawalModal i n x y p) = reflect_number (js_sub x y)"
    by simp
  show \<open>salaryInfo_innerHTML (openWithdrawalModal i n x y p) = concat
       [''\<newline>'',
        ''        <h4 class="font-semibold text-gray-800 mb-3">Salary Details for '',
        n,
        ''</h4>\<newline>'',
        ''        <div class="space-y-2 text-sm">\<newline>'',
        ''            <div class="flex justify-between">\<newline>'',
        ''                <span class="text-gray-600">Total Salary:</span>\<newline>'',
        ''                <span class="font-semibold text-green-600">Rs '',
        formatNumber x,
        ''</span>\<newline>'',
        ''            </div>\<newline>'',
        ''            <div class="flex justify-between">\<newline>'',
        ''                <span class="text-gray-600">Already Withdrawn:</span>\<newline>'',
        ''                <span class="font-semibold text-orange-600">Rs '',
        formatNumber y,
        ''</span>\<newline>'',
        ''            </div>\<newline>'',
        ''            <div class="flex justify-between pt-2 border-t border-orange-200">\<newline>'',
        ''                <span class="text-gray-700 font-medium">Remaining Balance:</span>\<newline>'',
        ''                <span class="font-bold text-blue-600">Rs '',
        formatNumber (js_sub x y),
        ''</span>\<newline>'',
        ''            </div>\<newline>'',
        ''        </div>\<newline>'',
        ''    '']\<close>
    by (simp add: salaryInfo_html_def)
next
  assume h: "monthly_salary e = of_nat s \<and> s < 2 ^ 53
      \<and> sum_list (map amount (filter (\<lambda>t. employee_id t = emp_id e) (transactions st))) = of_nat k
      \<and> k < 2 ^ 53"
  from h have s: "s < 2 ^ 53" and k: "k < 2 ^ 53"
    by (rule conjunct1 [OF conjunct2], rule conjunct2 [OF conjunct2 [OF conjunct2]])
  from h have ms: "monthly_salary e = of_nat s"
    by (rule conjunct1)
  from h have sm: "sum_list (map amount (filter (\<lambda>t. employee_id t = emp_id e) (transactions st)))
      = of_nat k"
    by (rule conjunct1 [OF conjunct2 [OF conjunct2]])
  have w: "withdrawn st (emp_id e) = of_nat k"
    unfolding withdrawn_def transactions_of_def by (rule sm)
  have "js_sub (binary64 (of_nat s)) (binary64 (of_nat k)) = Fin (of_nat s - of_nat k)"
    by (simp only: binary64_whole [OF s, THEN conjunct1] binary64_whole [OF k, THEN conjunct1]
        js_sub_Fin binary64_whole_difference [OF s k])
  then show d: "js_sub (binary64 (monthly_salary e)) (binary64 (withdrawn st (emp_id e)))
      = Fin (monthly_salary e
             - sum_list (map amount (filter (\<lambda>t. employee_id t = emp_id e) (transactions st))))"
    by (simp only: ms sm w)
  show "withdrawal_amount_max
        (openWithdrawalModal i n (binary64 (monthly_salary e))
           (binary64 (withdrawn st (emp_id e))) p)
      = Fin (monthly_salary e
             - sum_list (map amount (filter (\<lambda>t. employee_id t = emp_id e) (transactions st))))"
    by (simp add: d reflect_number_def)
qed

theorem openWithdrawalModal_remaining_witness:
  "withdrawal_amount_max
     (openWithdrawalModal ''1'' ''A'' (binary64 (monthly_salary employee_A))
        (binary64 (withdrawn ledger_A (emp_id employee_A))) initial_page) = Fin 30000
   \<and> withdrawal_amount_max
     (openWithdrawalModal ''1'' ''A'' (binary64 (monthly_salary employee_A))
        (binary64 (withdrawn ledger_A_paid (emp_id employee_A))) initial_page) = Fin 0
   \<and> formatNumber (binary64 (monthly_salary employee_A)) = ''30,000''
   \<and> formatNumber (js_sub (binary64 (monthly_salary employee_A))
        (binary64 (withdrawn ledger_A_paid (emp_id employee_A)))) = ''0''
   \<and> monthly_salary employee_A = of_nat 30000 \<and> (30000 :: nat) < 2 ^ 53
   \<and> sum_list (map amount (filter (\<lambda>t. employee_id t = emp_id employee_A)
        (transactions ledger_A_paid))) = of_nat 30000
   \<and> sum_list (map amount (filter (\<lambda>t. employee_id t = emp_id employee_A)
        (transactions ledger_A))) = of_nat 0"
proof -
  have a: "sum_list (map amount (filter (\<lambda>t. employee_id t = emp_id employee_A)
      (transactions ledger_A))) = of_nat 0"
    and b: "sum_list (map amount (filter (\<lambda>t. employee_id t = emp_id employee_A)
      (transactions ledger_A_paid))) = of_nat 30000"
    and c: "monthly_salary employee_A = of_nat 30000"
    by (simp_all add: employee_A_def ledger_A_def ledger_A_paid_def withdrawals_A_def)
  have f: "formatNumber (Fin 30000) = ''30,000''" "formatNumber (Fin 0) = ''0''"
    by (simp_all add: format_eval)
  have g: "(30000 :: nat) < 2 ^ 53" "(0 :: nat) < 2 ^ 53"
    by simp_all
  note r = conjunct2 [OF conjunct2 [OF conjunct2]]
  from a b c g
    openWithdrawalModal_remaining [where e = employee_A and st = ledger_A and s = 30000
      and k = 0 and i = "''1''" and n = "''A''" and p = initial_page, THEN r]
    openWithdrawalModal_remaining [where e = employee_A and st = ledger_A_paid and s = 30000
      and k = 30000 and i = "''1''" and n = "''A''" and p = initial_page, THEN r]
  have "js_sub (binary64 (monthly_salary employee_A))
        (binary64 (withdrawn ledger_A (emp_id employee_A))) = Fin 30000"
    and "js_sub (binary64 (monthly_salary employee_A))
        (binary64 (withdrawn ledger_A_paid (emp_id employee_A))) = Fin 0"
    and "withdrawal_amount_max
     (openWithdrawalModal ''1'' ''A'' (binary64 (monthly_salary employee_A))
        (binary64 (withdrawn ledger_A (emp_id employee_A))) initial_page) = Fin 30000"
    and "withdrawal_amount_max
     (openWithdrawalModal ''1'' ''A'' (binary64 (monthly_salary employee_A))
        (binary64 (withdrawn ledger_A_paid (emp_id employee_A))) initial_page) = Fin 0"
    by (simp_all add: reflect_number_def)
  with a b c g f show ?thesis
    by simp
qed

subsection \<open>Validation of a withdrawal\<close>

text \<open>
  Claim C4. When the amount exceeds the remaining balance, \<^verbatim>\<open>validateWithdrawal\<close> shows one
  alert, whose text holds the remaining balance that the dialog computed when it was opened,
  formatted in the browser's locale; nothing but the page is read.
\<close>

theorem validateWithdrawal_alert_carries_remaining:
  "js_gt (parseFloat v) (js_sub totalSalary taken) \<Longrightarrow>
   validateWithdrawal L ((openWithdrawalModal i n totalSalary taken p)\<lparr>withdrawal_amount_value := v\<rparr>)
   = (False, [''Withdrawal amount cannot exceed remaining balance (Rs ''
               @ L (reflect_number (js_sub totalSalary taken)) @ '')''])"
  by (simp add: validateWithdrawal_def Let_def js_gt_def)

theorem validateWithdrawal_alert_carries_remaining_witness:
  "js_gt (parseFloat ''25000'') (js_sub (Fin 30000) (Fin 10000))
   \<and> validateWithdrawal (toLocaleString_en_IN 3)
        ((openWithdrawalModal ''1'' ''A'' (Fin 30000) (Fin 10000) initial_page)
           \<lparr>withdrawal_amount_value := ''25000''\<rparr>)
      = (False, [''Withdrawal amount cannot exceed remaining balance (Rs 20,000)''])"
proof -
  have a: "parseFloat ''25000'' = Fin 25000"
    by (simp add: parse_eval)
  have c: "js_gt (parseFloat ''25000'') (js_sub (Fin 30000) (Fin 10000))"
    by (simp add: a js_gt_def)
  have f: "toLocaleString_en_IN 3 (reflect_number (js_sub (Fin 30000) (Fin 10000))) = ''20,000''"
    by (simp add: reflect_number_def format_eval)
  from c f validateWithdrawal_alert_carries_remaining [OF c, where L = "toLocaleString_en_IN 3"
      and i = "''1''" and n = "''A''" and p = initial_page]
  show ?thesis by simp
qed

text \<open>
  Claim C5. When the withdrawn total exceeds the total salary, so that the remaining balance
  of the dialog is negative, \<^verbatim>\<open>validateWithdrawal\<close> returns false for every positive amount.
\<close>

theorem validateWithdrawal_blocks_overdrawn:
  "js_lt (js_sub totalSalary taken) (Fin 0) \<Longrightarrow> js_gt (parseFloat v) (Fin 0) \<Longrightarrow>
   \<not> fst (validateWithdrawal L
           ((openWithdrawalModal i n totalSalary taken p)\<lparr>withdrawal_amount_value := v\<rparr>))"
  by (auto simp: validateWithdrawal_def Let_def js_gt_def js_le_def js_lt_def
      dest: Number_lessThan_trans)

theorem validateWithdrawal_blocks_overdrawn_witness:
  "js_lt (js_sub (Fin 20000) (Fin 25000)) (Fin 0) \<and> js_gt (parseFloat ''100'') (Fin 0)
   \<and> \<not> fst (validateWithdrawal (toLocaleString_en_IN 3)
           ((openWithdrawalModal ''1'' ''A'' (Fin 20000) (Fin 25000) initial_page)
              \<lparr>withdrawal_amount_value := ''100''\<rparr>))"
proof -
  have a: "js_lt (js_sub (Fin 20000) (Fin 25000)) (Fin 0)"
    by (simp add: js_lt_def)
  have "parseFloat ''100'' = Fin 100"
    by (simp add: parse_eval)
  then have b: "js_gt (parseFloat ''100'') (Fin 0)"
    by (simp add: js_gt_def)
  from a b validateWithdrawal_blocks_overdrawn [OF a b, where L = "toLocaleString_en_IN 3"
      and i = "''1''" and n = "''A''" and p = initial_page]
  show ?thesis by blast
qed

text \<open>
  Claim C9. An amount that \<^verbatim>\<open>parseFloat\<close> reads as NaN, such as the empty string, passes
  \<^verbatim>\<open>validateWithdrawal\<close>: both comparisons with NaN are false, so the function returns true and
  shows no alert, whatever the maximum is.
\<close>

theorem validateWithdrawal_accepts_NaN:
  "parseFloat (withdrawal_amount_value p) = NaN \<Longrightarrow> validateWithdrawal L p = (True, [])"
  by (simp add: validateWithdrawal_def Let_def js_gt_def js_le_def)

theorem validateWithdrawal_accepts_NaN_witness:
  "parseFloat (withdrawal_amount_value
      (openWithdrawalModal ''1'' ''A'' (Fin 30000) (Fin 10000) initial_page)) = NaN
   \<and> withdrawal_amount_value
      (openWithdrawalModal ''1'' ''A'' (Fin 30000) (Fin 10000) initial_page) = []
   \<and> validateWithdrawal (toLocaleString_en_IN 3)
        (openWithdrawalModal ''1'' ''A'' (Fin 30000) (Fin 10000) initial_page) = (True, [])"
proof -
  have v: "withdrawal_amount_value
      (openWithdrawalModal ''1'' ''A'' (Fin 30000) (Fin 10000) initial_page) = []"
    by (simp add: openWithdrawalModal_def Let_def)
  have "parseFloat [] = NaN"
    by (simp add: parse_eval)
  with v have a: "parseFloat (withdrawal_amount_value
      (openWithdrawalModal ''1'' ''A'' (Fin 30000) (Fin 10000) initial_page)) = NaN"
    by simp
  from v a validateWithdrawal_accepts_NaN [OF a, where L = "toLocaleString_en_IN 3"]
  show ?thesis by blast
qed

subsection \<open>The display of amounts\<close>

lemma is_digit_digit_char: "d < 10 \<Longrightarrow> is_digit (digit_char d)"
  by (simp add: is_digit_def digit_char_def)

lemma digit_val_digit_char: "d < 10 \<Longrightarrow> digit_val (digit_char d) = d"
  by (simp add: digit_val_def digit_char_def)

lemma dec_digits_is_digit: "c \<in> set (dec_digits n) \<Longrightarrow> is_digit c"
proof (induction n rule: dec_digits.induct)
  case (1 n)
  show ?case
  proof (cases "n < 10")
    case True
    with "1.prems" show ?thesis
      by (simp add: dec_digits.simps [of n] is_digit_digit_char)
  next
    case False
    with "1.prems" "1.IH" show ?thesis
      by (auto simp: dec_digits.simps [of n] is_digit_digit_char)
  qed
qed

lemma dec_digits_not_Nil [simp]: "dec_digits n \<noteq> []"
  by (simp add: dec_digits.simps [of n])

lemma set_group_pairs: "set (group_pairs ds) \<subseteq> insert (CHR '','') (set ds)"
  by (induction ds rule: group_pairs.induct) auto

lemma set_group_first: "set (group_first ds) \<subseteq> insert (CHR '','') (set ds)"
  using set_group_pairs by (induction ds rule: group_first.induct) fastforce+

lemma set_en_IN_grouping: "set (en_IN_grouping ds) \<subseteq> insert (CHR '','') (set ds)"
  using set_group_first [of "rev ds"] by (simp add: en_IN_grouping_def)

lemma fraction_part_none [simp]: "fraction_part 0 0 = []"
  by (simp add: fraction_part_def)

lemma format_scaled_whole:
  "format_scaled neg 0 n = (if neg then ''-'' else []) @ en_IN_grouping (dec_digits n)"
  by (simp add: format_scaled_def)

lemma format_scaled_whole_no_point: "CHR ''.'' \<notin> set (format_scaled neg 0 n)"
proof
  assume "CHR ''.'' \<in> set (format_scaled neg 0 n)"
  then have "CHR ''.'' \<in> set (en_IN_grouping (dec_digits n))"
    by (auto simp: format_scaled_whole split: if_splits)
  with set_en_IN_grouping [of "dec_digits n"] have "CHR ''.'' \<in> set (dec_digits n)"
    by auto
  then have "is_digit (CHR ''.'')"
    by (rule dec_digits_is_digit)
  then show False
    by (simp add: is_digit_def)
qed

lemma formatNumber_no_point: "CHR ''.'' \<notin> set (formatNumber x)"
  by (cases x) (simp_all add: formatNumber_def infinity_sign_def format_scaled_whole_no_point)

text \<open>
  Claim C8 does not hold of the script: \<^verbatim>\<open>formatNumber\<close> asks for at most 0 fraction digits, so
  the total salary, the withdrawn total and the remaining balance of the dialog are shown
  rounded to whole numbers. The amount 1234.25 is shown as \<^verbatim>\<open>1,234\<close>.
\<close>

theorem formatNumber_two_fraction_digits_counterexample:
  "formatNumber (Fin (4937 / 4)) = ''1,234'' \<and> fraction_digits (formatNumber (Fin (4937 / 4))) \<noteq> 2"
  by (simp add: format_eval fraction_digits_def)

text \<open>
  Claim C8, amended. Every amount of the withdrawal dialog is shown with no fraction digit:
  the text of \<^verbatim>\<open>formatNumber\<close> has no decimal point, and for a finite Number it is the sign
  and the grouped digits of the magnitude rounded to a whole number, halves away from zero.
\<close>

theorem formatNumber_no_fraction_digits:
  "fraction_digits (formatNumber x) = 0
   \<and> CHR ''.'' \<notin> set (formatNumber x)
   \<and> formatNumber (Fin q)
       = (if q < 0 then ''-'' else []) @ en_IN_grouping (dec_digits (nat \<lfloor>\<bar>q\<bar> + 1 / 2\<rfloor>))"
  using formatNumber_no_point [of x]
  by (simp add: fraction_digits_def formatNumber_def format_scaled_whole round_half_expand_def)


subsection \<open>Reading back a formatted amount\<close>

lemma foldl_digits:
  "foldl (\<lambda>a c. 10 * a + digit_val c) a ys
     = a * 10 ^ length ys + foldl (\<lambda>a c. 10 * a + digit_val c) 0 ys"
proof (induction ys rule: rev_induct)
  case Nil
  then show ?case by simp
next
  case (snoc y ys)
  then show ?case by (simp add: algebra_simps)
qed

lemma digits_val_append:
  "digits_val (xs @ ys) = digits_val xs * 10 ^ length ys + digits_val ys"
  using foldl_digits [of "digits_val xs" ys] by (simp add: digits_val_def)

lemma digits_val_single [simp]: "digits_val [c] = digit_val c"
  by (simp add: digits_val_def)

lemma digits_val_Nil [simp]: "digits_val [] = 0"
  by (simp add: digits_val_def)

lemma digits_val_dec_digits: "digits_val (dec_digits n) = n"
proof (induction n rule: dec_digits.induct)
  case (1 n)
  show ?case
  proof (cases "n < 10")
    case True
    then show ?thesis
      by (simp add: dec_digits.simps [of n] digit_val_digit_char)
  next
    case False
    with "1.IH" show ?thesis
      by (simp add: dec_digits.simps [of n] digits_val_append digit_val_digit_char)
  qed
qed

lemma length_dec_digits: "n < 10 ^ k \<Longrightarrow> 0 < k \<Longrightarrow> length (dec_digits n) \<le> k"
proof (induction n arbitrary: k rule: dec_digits.induct)
  case (1 n)
  show ?case
  proof (cases "n < 10")
    case True
    with "1.prems" show ?thesis
      by (simp add: dec_digits.simps [of n])
  next
    case False
    from "1.prems" obtain k' where k: "k = Suc k'"
      by (cases k) auto
    with "1.prems" False have "0 < k'"
      by (cases k') auto
    moreover from "1.prems" k have "n div 10 < 10 ^ k'"
      by (simp add: less_mult_imp_div_less mult.commute)
    ultimately have "length (dec_digits (n div 10)) \<le> k'"
      using "1.IH" False by simp
    with False k show ?thesis
      by (simp add: dec_digits.simps [of n])
  qed
qed

lemma digits_val_zeros [simp]: "digits_val (replicate j (CHR ''0'')) = 0"
  by (induction j) (simp_all add: digits_val_def digit_val_def)

lemma digits_val_leading_zeros [simp]:
  "digits_val (replicate j (CHR ''0'') @ xs) = digits_val xs"
  by (simp add: digits_val_append)

lemma strip_trailing:
  "xs = rev (dropWhile P (rev xs)) @ rev (takeWhile P (rev xs))"
  by (metis rev_append rev_rev_ident takeWhile_dropWhile_id)

lemma takeWhile_zeros:
  "takeWhile (\<lambda>c. c = z) xs = replicate (length (takeWhile (\<lambda>c. c = z) xs)) z"
  by (induction xs) auto

text \<open>The fraction part of a formatted amount is empty or a decimal point and at most \<open>k\<close>
  digits, whose value, scaled back to \<open>k\<close> digits, is the fraction that was formatted.\<close>

lemma fraction_part_shape:
  assumes "f < 10 ^ k" "0 < k"
  obtains "fraction_part k f = []" "f = 0"
  | fp where "fraction_part k f = CHR ''.'' # fp" "fp \<noteq> []" "list_all is_digit fp"
      "length fp \<le> k" "digits_val fp * 10 ^ (k - length fp) = f"
proof -
  define padded where "padded = replicate (k - length (dec_digits f)) (CHR ''0'') @ dec_digits f"
  define kept where "kept = rev (dropWhile (\<lambda>c. c = CHR ''0'') (rev padded))"
  define zs where "zs = rev (takeWhile (\<lambda>c. c = CHR ''0'') (rev padded))"
  have len: "length padded = k"
    using length_dec_digits [OF assms] by (simp add: padded_def)
  have val: "digits_val padded = f"
    by (simp add: padded_def digits_val_dec_digits)
  have digits: "list_all is_digit padded"
    by (auto simp: padded_def list_all_iff is_digit_def dest: dec_digits_is_digit)
  have split: "padded = kept @ zs"
    unfolding kept_def zs_def by (rule strip_trailing)
  have zs: "zs = replicate (length zs) (CHR ''0'')"
    unfolding zs_def using takeWhile_zeros [of "CHR ''0''" "rev padded"]
    by (metis length_rev rev_replicate)
  have kval: "digits_val kept * 10 ^ length zs = f"
    using val split zs by (metis add.right_neutral digits_val_append digits_val_zeros)
  have klen: "length kept + length zs = k"
    using len split by (metis length_append)
  have kdigits: "list_all is_digit kept"
    using digits split by (metis list_all_append)
  have fp: "fraction_part k f = (if kept = [] then [] else CHR ''.'' # kept)"
    by (simp only: fraction_part_def Let_def padded_def kept_def)
  show thesis
  proof (cases "kept = []")
    case True
    with kval fp that(1) show ?thesis by simp
  next
    case False
    from klen have "length kept \<le> k" and "k - length kept = length zs"
      by simp_all
    with False kval fp kdigits that(2) show ?thesis by simp
  qed
qed

lemma StrWhiteSpaceChar_bytes:
  "w \<in> set StrWhiteSpaceChar \<Longrightarrow>
   w \<noteq> [] \<and> \<not> is_digit (hd w) \<and> hd w \<noteq> CHR ''-'' \<and> \<not> is_digit (last w)"
  by (auto simp: StrWhiteSpaceChar_def is_digit_def)

lemma is_prefix_hd: "is_prefix w s \<Longrightarrow> w \<noteq> [] \<Longrightarrow> s \<noteq> [] \<and> hd s = hd w"
  by (cases w; cases s) auto

lemma trim_prefixes_id:
  assumes "\<And>w. w \<in> set ws \<Longrightarrow> w \<noteq> [] \<Longrightarrow> \<not> is_prefix w s"
  shows "trim_prefixes ws s = s"
proof -
  from assms have "find (\<lambda>w. w \<noteq> [] \<and> is_prefix w s) ws = None"
    by (auto simp: find_None_iff)
  then show ?thesis
    by (subst trim_prefixes.simps) simp
qed

lemma TrimStart_id: "is_digit (hd s) \<or> hd s = CHR ''-'' \<Longrightarrow> TrimStart s = s"
  unfolding TrimStart_def
  by (rule trim_prefixes_id) (metis StrWhiteSpaceChar_bytes is_prefix_hd)

lemma TrimString_id:
  assumes "s \<noteq> []" "is_digit (hd s) \<or> hd s = CHR ''-''" "is_digit (last s)"
  shows "TrimString s = s"
proof -
  have "trim_prefixes (map rev StrWhiteSpaceChar) (rev s) = rev s"
  proof (rule trim_prefixes_id)
    fix w assume w: "w \<in> set (map rev StrWhiteSpaceChar)" "w \<noteq> []"
    then obtain w' where w': "w' \<in> set StrWhiteSpaceChar" "w = rev w'"
      by auto
    with StrWhiteSpaceChar_bytes [of w'] have "\<not> is_digit (hd w)"
      by (simp add: hd_rev)
    moreover from assms have "is_digit (hd (rev s))"
      by (simp add: hd_rev)
    ultimately show "\<not> is_prefix w (rev s)"
      using w(2) is_prefix_hd [of w "rev s"] by auto
  qed
  with assms(2) show ?thesis
    by (simp add: TrimString_def TrimStart_id)
qed

lemma filter_group_pairs:
  "filter (\<lambda>c. c \<noteq> CHR '','') (group_pairs ds) = filter (\<lambda>c. c \<noteq> CHR '','') ds"
  by (induction ds rule: group_pairs.induct) auto

lemma filter_group_first:
  "filter (\<lambda>c. c \<noteq> CHR '','') (group_first ds) = filter (\<lambda>c. c \<noteq> CHR '','') ds"
  by (induction ds rule: group_first.induct) (auto simp: filter_group_pairs)

lemma filter_digits: "list_all is_digit ds \<Longrightarrow> filter (\<lambda>c. c \<noteq> CHR '','') ds = ds"
  by (induction ds) (auto simp: is_digit_def)

lemma filter_en_IN_grouping:
  "list_all is_digit ds \<Longrightarrow> filter (\<lambda>c. c \<noteq> CHR '','') (en_IN_grouping ds) = ds"
  by (simp add: en_IN_grouping_def rev_filter [symmetric] filter_group_first filter_digits)

lemma dec_digits_all: "list_all is_digit (dec_digits n)"
  by (simp add: list_all_iff dec_digits_is_digit)

lemma takeWhile_digits_stop:
  "list_all is_digit ds \<Longrightarrow> \<not> is_digit c \<Longrightarrow> takeWhile is_digit (ds @ c # r) = ds"
  by (induction ds) auto

lemma dropWhile_digits_stop:
  "list_all is_digit ds \<Longrightarrow> \<not> is_digit c \<Longrightarrow> dropWhile is_digit (ds @ c # r) = c # r"
  by (induction ds) auto

lemma takeWhile_digits_all: "list_all is_digit ds \<Longrightarrow> takeWhile is_digit ds = ds"
  by (induction ds) auto

lemma dropWhile_digits_all: "list_all is_digit ds \<Longrightarrow> dropWhile is_digit ds = []"
  by (induction ds) auto

lemma not_Infinity: "is_digit (hd s) \<Longrightarrow> \<not> is_prefix ''Infinity'' s"
  by (cases s) (auto simp: is_digit_def)

lemma ExponentPart_Nil [simp]: "ExponentPart [] = (0, [])"
  by (simp add: ExponentPart_def)

text \<open>A digit string, alone or with a decimal point and fraction digits, is a decimal
  literal as a whole.\<close>

lemma StrUnsignedDecimalLiteral_whole:
  assumes "ds \<noteq> []" "list_all is_digit ds"
  shows "StrUnsignedDecimalLiteral ds = Some (MVDecimal (digits_val ds) 0, [])"
proof -
  from assms have "is_digit (hd ds)"
    by (cases ds) auto
  then have "\<not> is_prefix ''Infinity'' ds"
    by (rule not_Infinity)
  with assms show ?thesis
    by (simp add: StrUnsignedDecimalLiteral_def takeWhile_digits_all dropWhile_digits_all)
qed

lemma StrUnsignedDecimalLiteral_fraction:
  assumes "ds \<noteq> []" "list_all is_digit ds" "list_all is_digit fp"
  shows "StrUnsignedDecimalLiteral (ds @ CHR ''.'' # fp)
           = Some (MVDecimal (digits_val (ds @ fp)) (- int (length fp)), [])"
proof -
  from assms have "is_digit (hd (ds @ CHR ''.'' # fp))"
    by (cases ds) auto
  then have a: "\<not> is_prefix ''Infinity'' (ds @ CHR ''.'' # fp)"
    by (rule not_Infinity)
  have b: "\<not> is_digit (CHR ''.'')"
    by (simp add: is_digit_def)
  from assms a show ?thesis
    by (simp add: StrUnsignedDecimalLiteral_def takeWhile_digits_stop [OF _ b]
        dropWhile_digits_stop [OF _ b] takeWhile_digits_all dropWhile_digits_all)
qed

lemma NonDecimalIntegerLiteral_None:
  assumes "\<forall>c \<in> set u. is_digit c \<or> c = CHR ''-'' \<or> c = CHR ''.''"
  shows "NonDecimalIntegerLiteral u = None"
proof (cases u)
  case Nil
  then show ?thesis by (simp add: NonDecimalIntegerLiteral_def)
next
  case (Cons z r)
  show ?thesis
  proof (cases r)
    case Nil
    with Cons show ?thesis by (simp add: NonDecimalIntegerLiteral_def)
  next
    case (Cons p ds)
    with \<open>u = z # r\<close> assms have "is_digit p \<or> p = CHR ''-'' \<or> p = CHR ''.''"
      by simp
    then have "p \<noteq> CHR ''x''" "p \<noteq> CHR ''X''" "p \<noteq> CHR ''o''" "p \<noteq> CHR ''O''"
      "p \<noteq> CHR ''b''" "p \<noteq> CHR ''B''"
      by (auto simp: is_digit_def)
    with Cons \<open>u = z # r\<close> show ?thesis
      by (simp add: NonDecimalIntegerLiteral_def)
  qed
qed

lemma parse_sign_digit: "is_digit (hd s) \<Longrightarrow> parse_sign s = (False, s)"
  by (cases s) (auto simp: is_digit_def)

lemma to_number_scaled:
  assumes "m * 10 ^ (k - j) = n" "j \<le> k"
  shows "to_number neg (MVDecimal m (- int j))
           = (if n = 0 then (if neg then NegZero else Fin 0)
              else binary64 ((if neg then - 1 else 1) * (of_nat n / 10 ^ k)))"
proof -
  from assms have "(of_nat n :: rat) = of_nat m * 10 ^ (k - j)"
    by (metis of_nat_mult of_nat_numeral of_nat_power)
  also have "(10 :: rat) ^ (k - j) = 10 ^ k / 10 ^ j"
    using assms(2) by (simp add: power_diff)
  finally have "(of_nat n :: rat) / 10 ^ k = of_nat m / 10 ^ j"
    by simp
  moreover have "(10 :: rat) powi (- int j) = 1 / 10 ^ j"
    by (simp add: power_int_minus divide_inverse)
  moreover from assms have "m = 0 \<longleftrightarrow> n = 0"
    by auto
  ultimately show ?thesis
    by simp
qed

text \<open>The text of a formatted amount, with its grouping commas removed, reads back as the
  binary64 value of the decimal that was written, the sign of a zero included.\<close>

lemma format_scaled_plain:
  "filter (\<lambda>c. c \<noteq> CHR '','') (format_scaled neg k n)
     = (if neg then ''-'' else []) @ dec_digits (n div 10 ^ k) @ fraction_part k (n mod 10 ^ k)"
proof -
  have "filter (\<lambda>c. c \<noteq> CHR '','') (fraction_part k (n mod 10 ^ k)) = fraction_part k (n mod 10 ^ k)"
  proof (cases "k = 0")
    case True
    then show ?thesis by simp
  next
    case False
    then have "n mod 10 ^ k < 10 ^ k" "0 < k"
      by simp_all
    then show ?thesis
      by (rule fraction_part_shape) (simp_all add: filter_digits)
  qed
  then show ?thesis
    by (simp add: format_scaled_def filter_en_IN_grouping dec_digits_all)
qed

lemma read_back:
  fixes neg :: bool and n k :: nat
  assumes "0 < k"
  defines "u \<equiv> (if neg then ''-'' else []) @ dec_digits (n div 10 ^ k) @ fraction_part k (n mod 10 ^ k)"
  defines "x \<equiv> (if n = 0 then (if neg then NegZero else Fin 0)
                 else binary64 ((if neg then - 1 else 1) * (of_nat n / 10 ^ k)))"
  shows "parseFloat u = x" and "StringToNumber u = x" and "u \<noteq> []"
proof -
  let ?ds = "dec_digits (n div 10 ^ k)"
  let ?fr = "fraction_part k (n mod 10 ^ k)"
  have ds: "?ds \<noteq> []" "list_all is_digit ?ds"
    by (simp_all add: dec_digits_all)
  then have hd_ds: "is_digit (hd ?ds)"
    by (cases ?ds) auto
  have n: "n div 10 ^ k * 10 ^ k + n mod 10 ^ k = n"
    by (rule div_mult_mod_eq)
  have lit: "StrUnsignedDecimalLiteral (?ds @ ?fr) = Some (MVDecimal m (- int j), []) \<and>
      m * 10 ^ (k - j) = n \<and> j \<le> k \<and> is_digit (last (?ds @ ?fr)) \<and>
      (\<forall>c \<in> set (?ds @ ?fr). is_digit c \<or> c = CHR ''-'' \<or> c = CHR ''.'')"
    if "m = (case ?fr of [] \<Rightarrow> digits_val ?ds | c # fp \<Rightarrow> digits_val (?ds @ fp))"
      and "j = (case ?fr of [] \<Rightarrow> 0 | c # fp \<Rightarrow> length fp)" for m j
  proof -
    have "n mod 10 ^ k < 10 ^ k"
      by simp
    then show ?thesis
    proof (rule fraction_part_shape [OF _ assms(1)])
      assume fr: "?fr = []" and zero: "n mod 10 ^ k = 0"
      from ds have "is_digit (last ?ds)"
        by (simp add: list_all_iff)
      with fr zero n that ds show ?thesis
        by (simp add: StrUnsignedDecimalLiteral_whole digits_val_dec_digits list_all_iff)
    next
      fix fp
      assume fr: "?fr = CHR ''.'' # fp" and fp: "fp \<noteq> []" "list_all is_digit fp"
        "length fp \<le> k" and val: "digits_val fp * 10 ^ (k - length fp) = n mod 10 ^ k"
      from fp have "is_digit (last fp)"
        by (simp add: list_all_iff)
      moreover have "digits_val (?ds @ fp) * 10 ^ (k - length fp) = n"
      proof -
        have "digits_val (?ds @ fp) * 10 ^ (k - length fp)
            = n div 10 ^ k * (10 ^ length fp * 10 ^ (k - length fp))
              + digits_val fp * 10 ^ (k - length fp)"
          by (simp add: digits_val_append digits_val_dec_digits algebra_simps)
        also have "(10 :: nat) ^ length fp * 10 ^ (k - length fp) = 10 ^ k"
          using fp(3) by (simp add: power_add [symmetric])
        finally show ?thesis
          using val n by simp
      qed
      ultimately show ?thesis
        using fr fp that ds
        by (auto simp: StrUnsignedDecimalLiteral_fraction list_all_iff)
    qed
  qed
  define m where "m = (case ?fr of [] \<Rightarrow> digits_val ?ds | c # fp \<Rightarrow> digits_val (?ds @ fp))"
  define j where "j = (case ?fr of [] \<Rightarrow> 0 | c # fp \<Rightarrow> length fp)"
  note lit = lit [OF m_def j_def]
  have num: "to_number neg (MVDecimal m (- int j)) = x"
    unfolding x_def using lit by (intro to_number_scaled) simp_all
  have body: "?ds @ ?fr \<noteq> []" "is_digit (hd (?ds @ ?fr))"
    using ds hd_ds by simp_all
  have sign: "parse_sign u = (neg, ?ds @ ?fr)"
    using parse_sign_digit [OF body(2)] by (simp add: u_def)
  have first: "is_digit (hd u) \<or> hd u = CHR ''-''"
    using body by (simp add: u_def)
  have last: "is_digit (last u)"
    using lit body by (simp add: u_def)
  show "u \<noteq> []"
    using body by (simp add: u_def)
  then have trim: "TrimStart u = u" "TrimString u = u"
    using first last by (simp_all add: TrimStart_id TrimString_id)
  show "parseFloat u = x"
    using lit num by (simp add: parseFloat_def trim sign)
  have "\<forall>c \<in> set u. is_digit c \<or> c = CHR ''-'' \<or> c = CHR ''.''"
    using lit by (auto simp: u_def)
  then have "NonDecimalIntegerLiteral u = None"
    by (rule NonDecimalIntegerLiteral_None)
  with \<open>u \<noteq> []\<close> show "StringToNumber u = x"
    using lit num by (simp add: StringToNumber_def trim sign)
qed

text \<open>A binary64 value of at least \<open>2^53\<close> is a whole number.\<close>

lemma representable_whole:
  assumes "representable a" "2 ^ 53 \<le> a"
  obtains j :: nat where "a = of_nat j"
proof -
  from assms(1) obtain m e where a: "a = of_int m * 2 powi e" and m: "0 \<le> m" "m \<le> 2 ^ 53"
    unfolding representable_def by blast
  have "0 \<le> e"
  proof (rule ccontr)
    assume "\<not> 0 \<le> e"
    then have "(2 :: rat) powi e < 2 powi 0"
      by (intro power_int_strict_increasing) simp_all
    then have "(2 :: rat) powi e < 1"
      by simp
    moreover have "(0 :: rat) < of_int m"
    proof (rule ccontr)
      assume "\<not> (0 :: rat) < of_int m"
      with m(1) have "m = 0"
        by simp
      with a assms(2) show False
        by simp
    qed
    ultimately have "of_int m * 2 powi e < (of_int m :: rat) * 1"
      by (intro mult_strict_left_mono)
    also have "\<dots> \<le> 2 ^ 53"
      using m(2) by (simp add: of_int_le_numeral_power_cancel_iff)
    finally show False
      using a assms(2) by simp
  qed
  then have "(2 :: rat) powi e = of_nat (2 ^ nat e)"
    by (simp add: power_int_def)
  moreover from m(1) have "(of_int m :: rat) = of_nat (nat m)"
    by simp
  ultimately have "a = of_nat (nat m * 2 ^ nat e)"
    unfolding a by (simp only: of_nat_mult)
  then show thesis
    by (rule that)
qed

text \<open>
  An amount that has been rounded to three fraction digits is read back as the binary64
  value nearest to it, and formatting that value gives the same three fraction digits: the
  value is as near to the decimal as the Number that was formatted, which is within half a
  thousandth, and it cannot lie exactly half a thousandth above.
\<close>

lemma round_again:
  assumes "representable a" "a < 2 ^ 1024" "n = round_half_expand 3 a" "0 < n"
  defines "v \<equiv> nearest_binary64 (of_nat n / 1000)"
  shows "round_half_expand 3 v = n" and "0 < v" and "v < 2 ^ 1024"
proof -
  define r :: rat where "r = of_nat n / 1000"
  have r: "0 < r"
    using assms(4) by (simp add: r_def)
  have a0: "0 \<le> a"
    using assms(1) by (rule representable_nonneg)
  then have "0 \<le> \<lfloor>a * 1000 + 1 / 2\<rfloor>"
    by simp
  then have "(of_nat n :: rat) = of_int \<lfloor>a * 1000 + 1 / 2\<rfloor>"
    unfolding assms(3) round_half_expand_def by simp
  then have "of_nat n \<le> a * 1000 + 1 / 2" "a * 1000 + 1 / 2 < of_nat n + 1"
    by linarith+
  then have lo: "r - 1 / 2000 \<le> a" and hi: "a < r + 1 / 2000"
    by (simp_all add: r_def)
  have v: "representable v"
    unfolding v_def r_def [symmetric] using r by (rule nearest_binary64_representable)
  have near: "\<bar>v - r\<bar> \<le> \<bar>a - r\<bar>"
    unfolding v_def r_def [symmetric] using r assms(1) by (rule nearest_binary64_nearest)
  have below: "v - r < 1 / 2000"
  proof (rule ccontr)
    assume "\<not> v - r < 1 / 2000"
    with near lo hi have "v - a = 1 / 1000"
      by linarith
    moreover from v obtain k1 n1 where "v = of_int k1 / 2 ^ n1"
      by (rule representable_dyadic)
    moreover from assms(1) obtain k2 n2 where "a = of_int k2 / 2 ^ n2"
      by (rule representable_dyadic)
    ultimately show False
      using thousandth_not_dyadic_difference [of k1 n1 k2 n2] by simp
  qed
  from near lo hi have above: "r - 1 / 2000 \<le> v"
    by linarith
  have "\<lfloor>v * 1000 + 1 / 2\<rfloor> = int n"
  proof (rule floor_unique)
    show "of_int (int n) \<le> v * 1000 + 1 / 2"
      using above by (simp add: r_def)
    show "v * 1000 + 1 / 2 < of_int (int n) + 1"
      using below by (simp add: r_def)
  qed
  then show "round_half_expand 3 v = n"
    by (simp add: round_half_expand_def)
  have "(1 :: rat) \<le> of_nat n"
    using assms(4) by simp
  then have "0 < r - 1 / 2000"
    by (simp add: r_def)
  with above show "0 < v"
    by linarith
  show "v < 2 ^ 1024"
  proof (cases "a < 2 ^ 53")
    case True
    with near lo hi have "v < 2 ^ 53 + 1"
      by linarith
    also have "\<dots> < (2 :: rat) ^ 1024"
      by simp
    finally show ?thesis .
  next
    case False
    then have "2 ^ 53 \<le> a"
      by simp
    with assms(1) obtain j :: nat where j: "a = of_nat j"
      by (rule representable_whole)
    have "\<lfloor>(of_nat (j * 1000) :: rat) + 1 / 2\<rfloor> = int (j * 1000)"
      by (rule floor_unique) simp_all
    then have "n = j * 1000"
      unfolding assms(3) round_half_expand_def j by simp
    then have "r = a"
      by (simp add: r_def j)
    with near have "v = a"
      by simp
    with assms(2) show ?thesis
      by simp
  qed
qed

lemma toLocaleString_read_back:
  assumes "representable a" "a < 2 ^ 1024" "n = round_half_expand 3 a"
  shows "toLocaleString_en_IN 3
           (if n = 0 then (if neg then NegZero else Fin 0)
            else binary64 ((if neg then - 1 else 1) * (of_nat n / 10 ^ 3)))
         = format_scaled neg 3 n"
proof (cases "n = 0")
  case True
  then show ?thesis
    by (simp add: round_half_expand_def)
next
  case False
  define v where "v = nearest_binary64 (of_nat n / 1000)"
  from False have n: "0 < n"
    by simp
  have v: "round_half_expand 3 v = n" "0 < v" "v < 2 ^ 1024"
    unfolding v_def using assms n by (rule round_again)+
  have pos: "(0 :: rat) < of_nat n / 1000"
    using n by simp
  have "binary64 (of_nat n / 1000) = Fin v" "binary64 (- (of_nat n / 1000)) = Fin (- v)"
    unfolding v_def using pos v(2,3) [unfolded v_def] by (rule binary64_positive)+
  then have "binary64 ((if neg then - 1 else 1) * (of_nat n / 10 ^ 3)) = Fin (if neg then - v else v)"
    by simp
  moreover have "toLocaleString_en_IN 3 (Fin (if neg then - v else v)) = format_scaled neg 3 n"
    using v(1,2) by simp
  ultimately show ?thesis
    using False by simp
qed

lemma formatCurrency_format_scaled:
  assumes "representable a" "a < 2 ^ 1024" "n = round_half_expand 3 a"
  shows "formatCurrency (format_scaled neg 3 n) = format_scaled neg 3 n"
proof -
  let ?u = "filter (\<lambda>c. c \<noteq> CHR '','') (format_scaled neg 3 n)"
  let ?x = "if n = 0 then (if neg then NegZero else Fin 0)
            else binary64 ((if neg then - 1 else 1) * (of_nat n / 10 ^ 3))"
  have u: "?u = (if neg then ''-'' else []) @ dec_digits (n div 10 ^ 3) @ fraction_part 3 (n mod 10 ^ 3)"
    by (rule format_scaled_plain)
  have "parseFloat ?u = ?x" "StringToNumber ?u = ?x" "?u \<noteq> []"
    unfolding u by (rule read_back, simp)+
  moreover have "toLocaleString_en_IN 3 ?x = format_scaled neg 3 n"
    using assms by (rule toLocaleString_read_back)
  moreover have "?x \<noteq> NaN"
    by simp
  ultimately show ?thesis
    by (simp add: formatCurrency_def isNaN_string_def Let_def)
qed

text \<open>A finite Number that \<^verbatim>\<open>parseFloat\<close> returns is a binary64 value.\<close>

lemma to_number_Fin:
  assumes "to_number neg v = Fin q"
  shows "representable \<bar>q\<bar> \<and> \<bar>q\<bar> < 2 ^ 1024"
proof (cases v)
  case MVInfinity
  with assms show ?thesis
    by (simp split: if_splits)
next
  case (MVDecimal m e)
  show ?thesis
  proof (cases "m = 0")
    case True
    with assms MVDecimal have "q = 0"
      by (simp split: if_splits)
    moreover have "representable 0"
      unfolding representable_def by (intro exI [of _ 0]) simp
    ultimately show ?thesis
      by simp
  next
    case False
    with assms MVDecimal have "binary64 ((if neg then - 1 else 1) * of_nat m * 10 powi e) = Fin q"
      by simp
    then show ?thesis
      by (intro conjI binary64_Fin)
  qed
qed

lemma parseFloat_Fin:
  assumes "parseFloat s = Fin q"
  shows "representable \<bar>q\<bar> \<and> \<bar>q\<bar> < 2 ^ 1024"
proof -
  from assms obtain neg v where "to_number neg v = Fin q"
    by (auto simp: parseFloat_def split: prod.splits option.splits)
  then show ?thesis
    by (rule to_number_Fin)
qed

lemmas number_eval = StringToNumber_def TrimString_def TrimStart_def trim_prefixes.simps
  StrWhiteSpaceChar_def NonDecimalIntegerLiteral_def StrUnsignedDecimalLiteral_def
  ExponentPart_def is_digit_def digits_val_def digit_val_def isNaN_string_def

lemma formatCurrency_NaN_text: "formatCurrency ''NaN'' = ''NaN''"
  by (simp add: formatCurrency_def number_eval)

lemma formatCurrency_infinity_text:
  "formatCurrency infinity_sign = infinity_sign"
  "formatCurrency (CHR ''-'' # infinity_sign) = CHR ''-'' # infinity_sign"
  by (simp_all add: formatCurrency_def number_eval infinity_sign_def)

text \<open>
  Claim C10. \<^verbatim>\<open>formatCurrency\<close> is idempotent on the value of the input: formatting the value
  it has written leaves that value as it is. This holds for every string, and so for every
  string that represents a number.
\<close>

theorem formatCurrency_idempotent:
  "formatCurrency (formatCurrency s) = formatCurrency s"
proof (cases "formatCurrency s = s")
  case True
  then show ?thesis by simp
next
  case False
  then have written: "formatCurrency s
      = toLocaleString_en_IN 3 (parseFloat (filter (\<lambda>c. c \<noteq> CHR '','') s))"
    by (simp add: formatCurrency_def Let_def split: if_splits)
  show ?thesis
  proof (cases "parseFloat (filter (\<lambda>c. c \<noteq> CHR '','') s)")
    case NegZero
    have "representable 0"
      unfolding representable_def by (intro exI [of _ 0]) simp
    moreover have "(0 :: rat) < 2 ^ 1024" "0 = round_half_expand 3 0"
      by (simp_all add: round_half_expand_def)
    ultimately have "formatCurrency (format_scaled True 3 0) = format_scaled True 3 0"
      by (rule formatCurrency_format_scaled)
    with NegZero show ?thesis
      by (simp add: written)
  next
    case (Fin q)
    then have "representable \<bar>q\<bar> \<and> \<bar>q\<bar> < 2 ^ 1024"
      by (rule parseFloat_Fin)
    then have "representable \<bar>q\<bar>" "\<bar>q\<bar> < 2 ^ 1024"
      by blast+
    then have "formatCurrency (format_scaled (q < 0) 3 (round_half_expand 3 \<bar>q\<bar>))
        = format_scaled (q < 0) 3 (round_half_expand 3 \<bar>q\<bar>)"
      by (rule formatCurrency_format_scaled) (rule refl)
    with Fin show ?thesis
      by (simp add: written)
  qed (simp_all add: written formatCurrency_NaN_text formatCurrency_infinity_text)
qed

theorem formatCurrency_idempotent_witness:
  "formatCurrency ''1234567.891'' = ''12,34,567.891''
   \<and> formatCurrency (formatCurrency ''1234567.891'') = ''12,34,567.891''
   \<and> formatCurrency ''-0.0001'' = ''-0''
   \<and> formatCurrency (formatCurrency ''-0.0001'') = ''-0''"
proof -
  have c: "binary64 (1234567891 / 1000) = Fin (5302428716536693 / 2 ^ 32)"
    using binary64_certificate(1) [of 20 "1234567891 / 1000" 5302428716536693]
    by (simp add: power_int_minus divide_simps)
  have d: "binary64 (- (1 / 10000)) = Fin (- (7378697629483821 / 2 ^ 66))"
    using binary64_certificate(2) [of "- 14" "1 / 10000" 7378697629483821]
    by (simp add: power_int_minus divide_simps)
  have a: "formatCurrency ''1234567.891'' = ''12,34,567.891''"
    by (simp add: formatCurrency_def number_eval parseFloat_def format_eval power_int_def
        power_divide c)
  have b: "formatCurrency ''-0.0001'' = ''-0''"
    by (simp add: formatCurrency_def number_eval parseFloat_def format_eval power_int_def
        power_divide d)
  from a b formatCurrency_idempotent [of "''1234567.891''"]
    formatCurrency_idempotent [of "''-0.0001''"]
  show ?thesis by simp
qed

subsection \<open>The boundary of the validation\<close>

text \<open>Literals that are not binary64 values are rounded when they are read: a literal below
  the least positive Number is read as 0, one above the greatest finite Number as infinity,
  and one halfway between two Numbers as the one with the even significand.\<close>

lemma parseFloat_underflow: "parseFloat ''1e-324'' = Fin 0"
proof -
  have "nearest_binary64 (1 / 10 ^ 324) = of_int 0 * 2 powi max (- 1074) (- 1077 - 52)"
    by (rule nearest_binary64_certificate) (simp_all add: power_int_minus divide_simps)
  then have "binary64 (1 / 10 ^ 324) = Fin 0"
    by (simp add: binary64_def)
  then show ?thesis
    by (simp add: parse_eval power_int_minus divide_simps)
qed

lemma parseFloat_overflow: "parseFloat ''1e309'' = PInf"
proof -
  have "nearest_binary64 (10 ^ 309)
      = of_int 6263026125028040 * 2 powi max (- 1074) (1026 - 52)"
    by (rule nearest_binary64_certificate) (simp_all add: power_int_minus divide_simps)
  then have "binary64 (10 ^ 309) = PInf"
    by (simp add: binary64_def)
  then show ?thesis
    by (simp add: parse_eval)
qed

lemma parseFloat_ties_to_even: "parseFloat ''9007199254740993'' = Fin 9007199254740992"
proof -
  have "floor_log2 9007199254740993 = 53"
    by (rule floor_log2_unique) simp_all
  then have "nearest_binary64 9007199254740993 = 9007199254740992"
    by (simp add: nearest_binary64_def binary64_exponent_def round_half_even_def Let_def)
  then have "binary64 9007199254740993 = Fin 9007199254740992"
    by (simp add: binary64_def)
  then show ?thesis
    by (simp add: parse_eval)
qed

lemma validateWithdrawal_underflow:
  "validateWithdrawal L
     ((openWithdrawalModal i n (Fin 30000) (Fin 10000) p)\<lparr>withdrawal_amount_value := ''1e-324''\<rparr>)
   = (False, [''Please enter a valid withdrawal amount''])"
  by (simp add: validateWithdrawal_def Let_def parseFloat_underflow js_gt_def js_le_def
      reflect_number_def)

text \<open>The decimal digits of a whole number below \<open>2^53\<close> are read as that number.\<close>

lemma fraction_part_zero: "0 < k \<Longrightarrow> fraction_part k 0 = []"
proof -
  assume "0 < k"
  then have "replicate (k - Suc 0) (CHR ''0'') @ ''0'' = replicate k (CHR ''0'')"
    by (cases k) (simp_all add: replicate_append_same)
  then show ?thesis
    by (simp add: fraction_part_def)
qed

lemma parseFloat_dec_digits:
  assumes "a < 2 ^ 53"
  shows "parseFloat (dec_digits a) = Fin (of_nat a)"
proof -
  have "parseFloat ((if False then ''-'' else []) @ dec_digits (10 * a div 10 ^ 1)
        @ fraction_part 1 (10 * a mod 10 ^ 1))
      = (if 10 * a = 0 then (if False then NegZero else Fin 0)
         else binary64 ((if False then - 1 else 1) * (of_nat (10 * a) / 10 ^ 1)))"
    by (rule read_back) simp
  then have "parseFloat (dec_digits a) = (if a = 0 then Fin 0 else binary64 (of_nat a))"
    by (simp add: fraction_part_zero)
  also have "\<dots> = Fin (of_nat a)"
    using binary64_whole [OF assms] by simp
  finally show ?thesis .
qed

text \<open>
  Claim C2 does not hold of the script for amounts that are not whole numbers. For
  employee B, with a monthly salary of 100.1 and one withdrawal of 0.2, the remaining
  balance is 99.9. The amount 99.9 is greater than 0 and does not exceed it, but
  \<^verbatim>\<open>validateWithdrawal\<close> returns false and shows the alert of an amount that exceeds the
  remaining balance: the maximum of the dialog is the binary64 difference
  99.89999999999999, and the amount is read as the binary64 value of 99.9, which is greater.
\<close>

theorem validateWithdrawal_fails_iff_counterexample:
  "remaining ledger_B employee_B = 999 / 10
   \<and> parseFloat ''99.9'' = binary64 (999 / 10)
   \<and> (0 :: rat) < 999 / 10 \<and> (999 / 10 :: rat) \<le> remaining ledger_B employee_B
   \<and> validateWithdrawal (toLocaleString_en_IN 3)
        ((openWithdrawalModal ''2'' (emp_name employee_B) (binary64 (monthly_salary employee_B))
            (binary64 (withdrawn ledger_B (emp_id employee_B))) initial_page)
           \<lparr>withdrawal_amount_value := ''99.9''\<rparr>)
      = (False, [''Withdrawal amount cannot exceed remaining balance (Rs 99.9)''])"
proof -
  have a: "monthly_salary employee_B = 1001 / 10" "withdrawn ledger_B (emp_id employee_B) = 1 / 5"
    "remaining ledger_B employee_B = 999 / 10" "emp_name employee_B = ''B''"
    by (simp_all add: employee_B_def ledger_B_def remaining_def withdrawn_def transactions_of_def)
  have p: "parseFloat ''99.9'' = binary64 (999 / 10)"
    by (simp add: parse_eval power_int_minus)
  have g: "js_gt (Fin (3514918771674317 / 2 ^ 45)) (Fin (7029837543348633 / 2 ^ 46))"
    by (simp add: js_gt_def)
  have f: "toLocaleString_en_IN 3 (Fin (7029837543348633 / 2 ^ 46)) = ''99.9''"
    by (simp add: format_eval)
  have "validateWithdrawal (toLocaleString_en_IN 3)
        ((openWithdrawalModal ''2'' ''B'' (binary64 (1001 / 10)) (binary64 (1 / 5)) initial_page)
           \<lparr>withdrawal_amount_value := ''99.9''\<rparr>)
      = (False, [''Withdrawal amount cannot exceed remaining balance (Rs 99.9)''])"
    using g f
    by (simp add: validateWithdrawal_def Let_def p binary64_differences binary64_decimals(3)
        reflect_number_def)
  then show ?thesis
    unfolding a using p by simp
qed

text \<open>
  Claim C2, amended. With the dialog opened for a total salary and a withdrawn total, and an
  amount typed into the input, \<^verbatim>\<open>validateWithdrawal\<close> returns false (the form is not submitted)
  if and only if the amount, as the Number that \<^verbatim>\<open>parseFloat\<close> reads, is at most 0 or exceeds
  the remaining balance of the dialog, which is the Number \<^verbatim>\<open>totalSalary - withdrawn\<close>. In
  particular it returns false for every amount greater than this remaining balance, and
  true for every amount that is greater than 0 and at most this remaining balance. When the
  total salary, the withdrawn total and the amount are whole numbers below \<open>2^53\<close>, it returns
  true exactly when the amount is greater than 0 and at most the total salary minus the
  withdrawn total. The function only reads the page: it records nothing, and its result
  false is what keeps the form from being submitted.
\<close>

theorem validateWithdrawal_fails_iff:
  "(\<not> fst (validateWithdrawal L
            ((openWithdrawalModal i n totalSalary taken p)\<lparr>withdrawal_amount_value := v\<rparr>))
      \<longleftrightarrow> js_le (parseFloat v) (Fin 0) \<or> js_gt (parseFloat v) (js_sub totalSalary taken))
   \<and> (js_gt (parseFloat v) (js_sub totalSalary taken) \<longrightarrow>
        \<not> fst (validateWithdrawal L
            ((openWithdrawalModal i n totalSalary taken p)\<lparr>withdrawal_amount_value := v\<rparr>)))
   \<and> (js_gt (parseFloat v) (Fin 0) \<and> js_le (parseFloat v) (js_sub totalSalary taken) \<longrightarrow>
        fst (validateWithdrawal L
            ((openWithdrawalModal i n totalSalary taken p)\<lparr>withdrawal_amount_value := v\<rparr>)))
   \<and> (s < 2 ^ 53 \<and> k < 2 ^ 53 \<and> a < 2 ^ 53 \<longrightarrow>
        (fst (validateWithdrawal L
            ((openWithdrawalModal i n (binary64 (of_nat s)) (binary64 (of_nat k)) p)
               \<lparr>withdrawal_amount_value := dec_digits a\<rparr>))
         \<longleftrightarrow> 0 < a \<and> (of_nat a :: rat) \<le> of_nat s - of_nat k))"
proof (intro conjI impI)
  assume h: "s < 2 ^ 53 \<and> k < 2 ^ 53 \<and> a < 2 ^ 53"
  then have s: "s < 2 ^ 53" and k: "k < 2 ^ 53" and a: "a < 2 ^ 53"
    by blast+
  have m: "js_sub (binary64 (of_nat s)) (binary64 (of_nat k)) = Fin (of_nat s - of_nat k)"
    by (simp only: binary64_whole [OF s, THEN conjunct1] binary64_whole [OF k, THEN conjunct1]
        js_sub_Fin binary64_whole_difference [OF s k])
  show "fst (validateWithdrawal L
          ((openWithdrawalModal i n (binary64 (of_nat s)) (binary64 (of_nat k)) p)
             \<lparr>withdrawal_amount_value := dec_digits a\<rparr>))
        \<longleftrightarrow> 0 < a \<and> (of_nat a :: rat) \<le> of_nat s - of_nat k"
    by (simp add: validateWithdrawal_def Let_def m parseFloat_dec_digits [OF a] js_gt_def
        js_le_def reflect_number_def not_less)
qed (auto simp: validateWithdrawal_def Let_def js_gt_def js_le_def)

theorem validateWithdrawal_fails_iff_witness:
  "js_gt (parseFloat ''25000'') (js_sub (Fin 30000) (Fin 10000))
   \<and> \<not> fst (validateWithdrawal (toLocaleString_en_IN 3)
            ((openWithdrawalModal ''1'' ''A'' (Fin 30000) (Fin 10000) initial_page)
               \<lparr>withdrawal_amount_value := ''25000''\<rparr>))
   \<and> js_gt (parseFloat ''20000'') (Fin 0)
   \<and> js_le (parseFloat ''20000'') (js_sub (Fin 30000) (Fin 10000))
   \<and> fst (validateWithdrawal (toLocaleString_en_IN 3)
            ((openWithdrawalModal ''1'' ''A'' (Fin 30000) (Fin 10000) initial_page)
               \<lparr>withdrawal_amount_value := ''20000''\<rparr>))
   \<and> (30000 :: nat) < 2 ^ 53 \<and> (10000 :: nat) < 2 ^ 53 \<and> (20000 :: nat) < 2 ^ 53
   \<and> dec_digits 20000 = ''20000''
   \<and> fst (validateWithdrawal (toLocaleString_en_IN 3)
            ((openWithdrawalModal ''1'' ''A'' (binary64 (of_nat 30000)) (binary64 (of_nat 10000))
                initial_page)\<lparr>withdrawal_amount_value := dec_digits 20000\<rparr>))"
proof -
  have a: "parseFloat ''25000'' = Fin 25000" and b: "parseFloat ''20000'' = Fin 20000"
    by (simp_all add: parse_eval)
  have c: "js_gt (parseFloat ''25000'') (js_sub (Fin 30000) (Fin 10000))"
    and d: "js_gt (parseFloat ''20000'') (Fin 0)"
    and e: "js_le (parseFloat ''20000'') (js_sub (Fin 30000) (Fin 10000))"
    by (simp_all add: a b js_gt_def js_le_def)
  have g: "(30000 :: nat) < 2 ^ 53" "(10000 :: nat) < 2 ^ 53" "(20000 :: nat) < 2 ^ 53"
    "dec_digits 20000 = ''20000''"
    "(0 :: nat) < 20000 \<and> (of_nat 20000 :: rat) \<le> of_nat 30000 - of_nat 10000"
    by simp_all
  from c d e g
    validateWithdrawal_fails_iff [where L = "toLocaleString_en_IN 3" and i = "''1''"
      and n = "''A''" and totalSalary = "Fin 30000" and taken = "Fin 10000"
      and p = initial_page and v = "''25000''" and s = 30000 and k = 10000 and a = 20000]
    validateWithdrawal_fails_iff [where L = "toLocaleString_en_IN 3" and i = "''1''"
      and n = "''A''" and totalSalary = "Fin 30000" and taken = "Fin 10000"
      and p = initial_page and v = "''20000''" and s = 30000 and k = 10000 and a = 20000]
  show ?thesis by blast
qed


section \<open>Properties of the ledger\<close>

subsection \<open>Recording withdrawals\<close>

lemmas ledger_eval = Let_def recordWithdrawal_def find_employee_def remaining_def withdrawn_def
  transactions_of_def employee_A_def ledger_A_def requests_A_def withdrawals_A_def
  ledger_A_paid_def

lemma recordWithdrawal_Inr:
  assumes "recordWithdrawal today i a d n st = Inr (t, st')"
  obtains e where "find_employee st i = Some e" "0 < a" "a \<le> remaining st e"
    "employees st' = employees st" "transactions st' = transactions st @ [t]"
    "employee_id t = i" "amount t = a" "txn_id t = next_txn_id st"
    "next_txn_id st' = Suc (next_txn_id st)"
  using assms
  by (auto simp: recordWithdrawal_def Let_def split: option.splits if_splits)

lemma withdrawn_append:
  "transactions st' = transactions st @ [t] \<Longrightarrow>
   withdrawn st' j = withdrawn st j + (if employee_id t = j then amount t else 0)"
  by (simp add: withdrawn_def transactions_of_def)

lemma recordWithdrawal_keeps_balance:
  assumes rec: "recordWithdrawal today i a d n st = Inr (t, st')"
    and e: "find_employee st (emp_id e) = Some e"
    and nonneg: "0 \<le> remaining st e"
  shows "find_employee st' (emp_id e) = Some e \<and> 0 \<le> remaining st' e"
proof -
  from rec obtain e' where e': "find_employee st i = Some e'" "0 < a" "a \<le> remaining st e'"
    and st': "employees st' = employees st" "transactions st' = transactions st @ [t]"
    and t: "employee_id t = i" "amount t = a"
    by (rule recordWithdrawal_Inr)
  have found: "find_employee st' (emp_id e) = Some e"
    using e st' by (simp add: find_employee_def)
  have "0 \<le> remaining st' e"
  proof (cases "i = emp_id e")
    case True
    with e e' have "e' = e" by simp
    with e' st' t True show ?thesis
      by (simp add: remaining_def withdrawn_append)
  next
    case False
    with nonneg st' t show ?thesis
      by (simp add: remaining_def withdrawn_append)
  qed
  with found show ?thesis ..
qed

text \<open>A new employee, whose id no employee and no transaction of the ledger bears yet,
  starts with the whole monthly salary remaining, which is not negative.\<close>

lemma find_snoc: "find P xs = None \<Longrightarrow> find P (xs @ [y]) = (if P y then Some y else None)"
  by (induction xs) (auto split: if_splits)

lemma addEmployee_remaining:
  assumes add: "addEmployee name des salary joined st = Inr (e, st')"
    and fresh: "next_emp_id st \<notin> emp_id ` set (employees st)"
      "next_emp_id st \<notin> employee_id ` set (transactions st)"
  shows "find_employee st' (emp_id e) = Some e \<and> remaining st' e = monthly_salary e
    \<and> 0 \<le> remaining st' e"
proof -
  from add have e: "emp_id e = next_emp_id st" "monthly_salary e = salary" "0 \<le> salary"
    and st': "employees st' = employees st @ [e]" "transactions st' = transactions st"
    by (auto simp: addEmployee_def Let_def split: if_splits)
  from fresh(1) e(1) have "find (\<lambda>x. emp_id x = emp_id e) (employees st) = None"
    by (force simp: find_None_iff)
  then have found: "find_employee st' (emp_id e) = Some e"
    by (simp add: find_employee_def st' find_snoc)
  from fresh(2) e(1) have "filter (\<lambda>t. employee_id t = emp_id e) (transactions st) = []"
    by (force simp: filter_empty_conv)
  then have "remaining st' e = monthly_salary e"
    by (simp add: remaining_def withdrawn_def transactions_of_def st')
  with found e show ?thesis
    by simp
qed

text \<open>
  Claim C3. An employee whose remaining balance is not negative (as it is when the employee
  is created) keeps a remaining balance, monthly salary minus the sum of the withdrawn
  amounts, that is not negative through every sequence of successful \<^verbatim>\<open>recordWithdrawal\<close>
  calls; no call of the sequence edits a salary.
\<close>

theorem recordWithdrawals_remaining_nonneg:
  "find_employee st (emp_id e) = Some e \<Longrightarrow> 0 \<le> remaining st e \<Longrightarrow>
   recordWithdrawals today reqs st = Inr st' \<Longrightarrow>
   find_employee st' (emp_id e) = Some e \<and>
   0 \<le> monthly_salary e - sum_list (map amount (transactions_of st' (emp_id e)))"
proof (induction reqs arbitrary: st)
  case Nil
  then show ?case by (simp add: remaining_def withdrawn_def)
next
  case (Cons r rs)
  from Cons.prems(3) obtain t st1 where
    step: "recordWithdrawal today (req_employee r) (req_amount r) (req_date r) (req_note r) st
            = Inr (t, st1)"
    and rest: "recordWithdrawals today rs st1 = Inr st'"
    by (auto split: sum.splits)
  from recordWithdrawal_keeps_balance [OF step Cons.prems(1) Cons.prems(2)]
  have "find_employee st1 (emp_id e) = Some e" and "0 \<le> remaining st1 e"
    by simp_all
  then show ?case using rest by (rule Cons.IH)
qed

theorem recordWithdrawals_remaining_nonneg_witness:
  "addEmployee ''A'' ''Cook'' 30000 (2024, 1, 1) empty_ledger = Inr (employee_A, ledger_A)
   \<and> find_employee ledger_A (emp_id employee_A) = Some employee_A
   \<and> 0 \<le> remaining ledger_A employee_A
   \<and> recordWithdrawals (2024, 6, 1) requests_A ledger_A = Inr ledger_A_paid
   \<and> find_employee ledger_A_paid (emp_id employee_A) = Some employee_A
   \<and> 0 \<le> monthly_salary employee_A
          - sum_list (map amount (transactions_of ledger_A_paid (emp_id employee_A)))"
proof -
  have add: "addEmployee ''A'' ''Cook'' 30000 (2024, 1, 1) empty_ledger = Inr (employee_A, ledger_A)"
    by (simp add: addEmployee_def empty_ledger_def employee_A_def ledger_A_def days_in_month_def
        Let_def numeral_2_eq_2)
  have found: "find_employee ledger_A (emp_id employee_A) = Some employee_A"
    by (simp add: ledger_eval)
  have nonneg: "0 \<le> remaining ledger_A employee_A"
    by (simp add: ledger_eval)
  have run: "recordWithdrawals (2024, 6, 1) requests_A ledger_A = Inr ledger_A_paid"
    by (simp add: ledger_eval)
  from add found nonneg run recordWithdrawals_remaining_nonneg [OF found nonneg run]
  show ?thesis by blast
qed

subsection \<open>Deleting an employee\<close>

lemma find_employee_None_iff: "find_employee st i = None \<longleftrightarrow> i \<notin> emp_id ` set (employees st)"
  by (auto simp: find_employee_def find_None_iff)

text \<open>
  Claim C7. For an employee id present in the store, \<^verbatim>\<open>deleteEmployee\<close> succeeds with a store
  from which the employee and all transactions of that id are gone, both in the one result,
  with everything else kept; a \<^verbatim>\<open>recordWithdrawal\<close> on that id then fails with \<^verbatim>\<open>NotFoundError\<close>.
  When \<^verbatim>\<open>deleteEmployee\<close> fails it returns no store, so that neither is removed.
\<close>

theorem deleteEmployee_cascades:
  "(i \<in> emp_id ` set (employees st) \<longrightarrow>
      (\<exists>st'. deleteEmployee i st = Inr st'
         \<and> employees st' = filter (\<lambda>e. emp_id e \<noteq> i) (employees st)
         \<and> transactions st' = filter (\<lambda>t. employee_id t \<noteq> i) (transactions st)
         \<and> i \<notin> emp_id ` set (employees st')
         \<and> i \<notin> employee_id ` set (transactions st')
         \<and> recordWithdrawal today i a d n st' = Inl (NotFoundError i)))
   \<and> (i \<notin> emp_id ` set (employees st) \<longrightarrow> deleteEmployee i st = Inl (NotFoundError i))"
proof (intro conjI impI)
  assume present: "i \<in> emp_id ` set (employees st)"
  then obtain e where e: "find_employee st i = Some e"
    using find_employee_None_iff [of st i] by (cases "find_employee st i") auto
  define st' where "st' = st\<lparr>employees := filter (\<lambda>e. emp_id e \<noteq> i) (employees st),
      transactions := filter (\<lambda>t. employee_id t \<noteq> i) (transactions st)\<rparr>"
  have del: "deleteEmployee i st = Inr st'"
    using e by (simp add: deleteEmployee_def st'_def)
  have gone: "i \<notin> emp_id ` set (employees st')" "i \<notin> employee_id ` set (transactions st')"
    by (auto simp: st'_def)
  then have "find_employee st' i = None"
    by (simp add: find_employee_None_iff)
  then have "recordWithdrawal today i a d n st' = Inl (NotFoundError i)"
    by (simp add: recordWithdrawal_def)
  with del gone show "\<exists>st'. deleteEmployee i st = Inr st'
         \<and> employees st' = filter (\<lambda>e. emp_id e \<noteq> i) (employees st)
         \<and> transactions st' = filter (\<lambda>t. employee_id t \<noteq> i) (transactions st)
         \<and> i \<notin> emp_id ` set (employees st')
         \<and> i \<notin> employee_id ` set (transactions st')
         \<and> recordWithdrawal today i a d n st' = Inl (NotFoundError i)"
    by (intro exI [of _ st']) (simp add: st'_def)
next
  assume "i \<notin> emp_id ` set (employees st)"
  then have "find_employee st i = None"
    by (simp add: find_employee_None_iff)
  then show "deleteEmployee i st = Inl (NotFoundError i)"
    by (simp add: deleteEmployee_def)
qed

theorem deleteEmployee_cascades_witness:
  "1 \<in> emp_id ` set (employees ledger_A_paid)
   \<and> (\<exists>st'. deleteEmployee 1 ledger_A_paid = Inr st'
         \<and> employees st' = [] \<and> transactions st' = []
         \<and> recordWithdrawal (2024, 6, 2) 1 100 None None st' = Inl (NotFoundError 1))
   \<and> 2 \<notin> emp_id ` set (employees ledger_A_paid)
   \<and> deleteEmployee 2 ledger_A_paid = Inl (NotFoundError 2)"
proof -
  have a: "1 \<in> emp_id ` set (employees ledger_A_paid)"
    and b: "2 \<notin> emp_id ` set (employees ledger_A_paid)"
    by (simp_all add: ledger_eval)
  have c: "filter (\<lambda>e. emp_id e \<noteq> 1) (employees ledger_A_paid) = []"
    and d: "filter (\<lambda>t. employee_id t \<noteq> 1) (transactions ledger_A_paid) = []"
    by (simp_all add: ledger_eval)
  from a b
    deleteEmployee_cascades [where i = 1 and st = ledger_A_paid and today = "(2024, 6, 2)"
      and a = 100 and d = None and n = None]
    deleteEmployee_cascades [where i = 2 and st = ledger_A_paid and today = "(2024, 6, 2)"
      and a = 100 and d = None and n = None]
  show ?thesis unfolding c d by blast
qed

subsection \<open>The dashboard\<close>

lemma sorted_wrt_take_any: "sorted_wrt P xs \<Longrightarrow> sorted_wrt P (take n xs)"
  by (induction xs arbitrary: n) (auto simp: take_Cons' dest: in_set_takeD)

lemma sorted_desc_recent:
  "sorted_wrt (\<lambda>a b. recency b \<le> recency a) (rev (sort_key recency ts))"
proof -
  have "sorted (map recency (sort_key recency ts))"
    by (rule sorted_sort_key)
  then have "sorted_wrt (\<lambda>a b. recency a \<le> recency b) (sort_key recency ts)"
    by (simp add: sorted_wrt_map)
  then show ?thesis
    by (simp add: sorted_wrt_rev)
qed

lemma recency_le_iff:
  "recency b \<le> recency a \<longleftrightarrow>
     txn_date b < txn_date a \<or> (txn_date b = txn_date a \<and> txn_id b \<le> txn_id a)"
  unfolding recency_def less_eq_prod_simp using le_less by blast

lemma sorted_wrt_take_drop:
  "sorted_wrt P xs \<Longrightarrow> x \<in> set (take n xs) \<Longrightarrow> y \<in> set (drop n xs) \<Longrightarrow> P x y"
  using sorted_wrt_append [of P "take n xs" "drop n xs"] by simp

text \<open>
  Claim C6. \<^verbatim>\<open>getDashboardSummary\<close> is a function of the store: the total salary is the sum
  of the monthly salaries, the total withdrawn the sum of all transaction amounts, the total
  remaining their difference; the recent transactions are at most ten transactions of the
  store, in descending order of date and, within one date, of creation; and every
  transaction that is not listed is no more recent than the listed ones.
\<close>

theorem getDashboardSummary_totals:
  "total_salary (getDashboardSummary st) = sum_list (map monthly_salary (employees st))
   \<and> total_withdrawn (getDashboardSummary st) = sum_list (map amount (transactions st))
   \<and> total_remaining (getDashboardSummary st)
       = total_salary (getDashboardSummary st) - total_withdrawn (getDashboardSummary st)
   \<and> length (recent_transactions (getDashboardSummary st)) = min 10 (length (transactions st))
   \<and> sorted_wrt (\<lambda>a b. txn_date b < txn_date a \<or> (txn_date b = txn_date a \<and> txn_id b \<le> txn_id a))
       (recent_transactions (getDashboardSummary st))
   \<and> mset (recent_transactions (getDashboardSummary st)) \<subseteq># mset (transactions st)
   \<and> (\<forall>r \<in> set (recent_transactions (getDashboardSummary st)).
        \<forall>t \<in># mset (transactions st) - mset (recent_transactions (getDashboardSummary st)).
          txn_date t < txn_date r \<or> (txn_date t = txn_date r \<and> txn_id t \<le> txn_id r))"
proof -
  let ?all = "rev (sort_key recency (transactions st))"
  let ?P = "\<lambda>a b. txn_date b < txn_date a \<or> (txn_date b = txn_date a \<and> txn_id b \<le> txn_id a)"
  have recent: "recent_transactions (getDashboardSummary st) = take 10 ?all"
    by (simp add: getDashboardSummary_def Let_def)
  have sorted_all: "sorted_wrt ?P ?all"
    using sorted_desc_recent [of "transactions st"] by (simp add: recency_le_iff)
  have mset_all: "mset ?all = mset (transactions st)"
    by simp
  have split: "mset (take 10 ?all) + mset (drop 10 ?all) = mset (transactions st)"
    using mset_all by (metis append_take_drop_id mset_append)
  have sub: "mset (take 10 ?all) \<subseteq># mset (transactions st)"
    using split by (metis mset_subset_eq_add_left)
  have rest: "mset (transactions st) - mset (take 10 ?all) = mset (drop 10 ?all)"
    using split by (metis add_diff_cancel_left')
  have older: "\<forall>r \<in> set (take 10 ?all). \<forall>t \<in># mset (transactions st) - mset (take 10 ?all). ?P r t"
    using sorted_all by (auto simp: rest dest: sorted_wrt_take_drop)
  have len: "length (take 10 ?all) = min 10 (length (transactions st))"
    by simp
  show ?thesis
    unfolding recent
    using sorted_wrt_take_any [OF sorted_all, of 10] sub older len
    by (simp add: getDashboardSummary_def Let_def)
qed

theorem getDashboardSummary_totals_witness:
  "total_salary (getDashboardSummary ledger_A_paid) = 30000
   \<and> total_withdrawn (getDashboardSummary ledger_A_paid) = 30000
   \<and> total_remaining (getDashboardSummary ledger_A_paid) = 0
   \<and> recent_transactions (getDashboardSummary ledger_A_paid)
       = [withdrawals_A ! 1, withdrawals_A ! 0, withdrawals_A ! 2]
   \<and> mset (transactions ledger_A_paid) - mset (recent_transactions (getDashboardSummary ledger_A_paid))
       = {#}"
proof -
  have recent: "rev (sort_key recency (transactions ledger_A_paid))
      = [withdrawals_A ! 1, withdrawals_A ! 0, withdrawals_A ! 2]"
    by (simp add: ledger_eval recency_def)
  have sums: "sum_list (map monthly_salary (employees ledger_A_paid)) = 30000"
    "sum_list (map amount (transactions ledger_A_paid)) = 30000"
    by (simp_all add: ledger_eval)
  have shown: "recent_transactions (getDashboardSummary ledger_A_paid)
      = [withdrawals_A ! 1, withdrawals_A ! 0, withdrawals_A ! 2]"
    using recent by (simp add: getDashboardSummary_def Let_def)
  have none_left: "mset (transactions ledger_A_paid)
      - mset (recent_transactions (getDashboardSummary ledger_A_paid)) = {#}"
    unfolding shown by (simp add: ledger_eval)
  from getDashboardSummary_totals [of ledger_A_paid] sums shown none_left
  show ?thesis by simp
qed

end
